theory Spec2Isabelle
  imports Main "HOL-Library.AList"
begin

section \<open>The entity-component-system core of TGT\<close>

text \<open>
  The model covers the classes \<open>Entity\<close>, \<open>System\<close> and \<open>Scene\<close> of the ECS module.
  Objects live in a store and are named by references, since the two membership arrays
  (\<open>entity._systems\<close> and \<open>system.entities\<close>) hold references to shared, mutable objects.
  The store holds one \<open>Scene\<close> object, and any number of entities and systems, inside the
  scene or not.

  JavaScript objects used as dictionaries (\<open>scene._entities\<close>, \<open>entity._components\<close>,
  a component instance, the \<open>data\<close> argument of \<open>Entity.set\<close>) are association lists
  in the order the keys were first written; a write to an existing key keeps its position
  (\<open>AList.update\<close>). Only own properties are modelled: keys are taken not to be names of
  properties of \<open>Object.prototype\<close>.

  The methods of a system (\<open>test\<close>, \<open>init\<close>, \<open>exit\<close> and the hooks reached through
  \<open>dispatch\<close>) are code of the caller. \<open>test\<close> is a predicate on the public data of
  the entity, its id and its components. Every call of a method of a system is recorded as
  an event, together with the store as it is at the moment of the call; a hook does not
  itself write to the store.
\<close>

subsection \<open>Values, errors, references\<close>

datatype val = Undefined | Num int | Str string | Bool bool

datatype error = TypeError

type_synonym eref = nat
type_synonym sref = nat

datatype scene_ref = This_scene

subsection \<open>Decimal strings and the order of \<open>for ... in\<close>\<close>

definition digit_char :: "nat \<Rightarrow> char" where
  "digit_char d = ''0123456789'' ! d"

fun show_nat :: "nat \<Rightarrow> string" where
  "show_nat n = (if n < 10 then [digit_char n] else show_nat (n div 10) @ [digit_char (n mod 10)])"

declare show_nat.simps [simp del]

definition is_digit :: "char \<Rightarrow> bool" where
  "is_digit c \<longleftrightarrow> c \<in> set ''0123456789''"

text \<open>The value of a digit is its position among the ten digits.\<close>

definition digit_val :: "char \<Rightarrow> nat" where
  "digit_val c = length (takeWhile (\<lambda>d. d \<noteq> c) ''0123456789'')"

definition dec_value :: "string \<Rightarrow> nat" where
  "dec_value s = foldl (\<lambda>n c. 10 * n + digit_val c) 0 s"

text \<open>
  A key is an array index when it is the canonical decimal form of an integer below
  \<open>2^32 - 1\<close>. \<open>for (k in obj)\<close> visits the array-index keys first, in ascending
  numeric order, and then the other keys in the order they were created.
\<close>

definition is_array_index :: "string \<Rightarrow> bool" where
  "is_array_index s \<longleftrightarrow>
     s \<noteq> [] \<and> list_all is_digit s \<and> (hd s \<noteq> CHR ''0'' \<or> s = ''0'') \<and> dec_value s < 2 ^ 32 - 1"

text \<open>
  \<open>for_in\<close> lists each key with its value: a loop \<open>for (k in obj) ... obj[k] ...\<close> is a
  recursion over these pairs. A key is listed once in a dictionary, so the value listed with
  a key is the one a lookup of the key returns (lemma \<open>for_in_lookup\<close> below).
\<close>

definition for_in :: "(string \<times> 'a) list \<Rightarrow> (string \<times> 'a) list" where
  "for_in kvs =
     sort_key (\<lambda>kv. dec_value (fst kv)) (filter (\<lambda>kv. is_array_index (fst kv)) kvs)
       @ filter (\<lambda>kv. \<not> is_array_index (fst kv)) kvs"

subsection \<open>Components and entities\<close>

text \<open>
  A component is a class: \<open>component.name\<close> is its name and \<open>new component()\<close> builds
  an instance with the fields its constructor sets.
\<close>

type_synonym fields = "(string \<times> val) list"

record component =
  comp_name :: string
  comp_new :: fields

record entity =
  ent_id :: string
  ent_systems :: "sref list"
  ent_components :: "(string \<times> fields) list"

definition entity_add :: "entity \<Rightarrow> component \<Rightarrow> entity" where
  "entity_add e c =
     e\<lparr>ent_components := AList.update (comp_name c) (comp_new c) (ent_components e)\<rparr>"

definition new_Entity :: "component list \<Rightarrow> entity" where
  "new_Entity cs = foldl entity_add \<lparr>ent_id = '''', ent_systems = [], ent_components = []\<rparr> cs"

definition entity_get :: "entity \<Rightarrow> component \<Rightarrow> fields option" where
  "entity_get e c = map_of (ent_components e) (comp_name c)"

text \<open>
  \<open>set\<close>: each round of the loop reads \<open>this.get(component)\<close> and writes one field of it;
  writing a field of \<open>undefined\<close> throws a \<open>TypeError\<close>.
\<close>

fun entity_set_loop :: "entity \<Rightarrow> component \<Rightarrow> (string \<times> val) list \<Rightarrow> error + entity" where
  "entity_set_loop e c [] = Inr e"
| "entity_set_loop e c ((key, v) # rest) =
     (case entity_get e c of
        None \<Rightarrow> Inl TypeError
      | Some inst \<Rightarrow>
          entity_set_loop
            (e\<lparr>ent_components := AList.update (comp_name c) (AList.update key v inst) (ent_components e)\<rparr>)
            c rest)"

definition entity_set :: "entity \<Rightarrow> component \<Rightarrow> (string \<times> val) list \<Rightarrow> error + entity" where
  "entity_set e c data = entity_set_loop e c (for_in data)"

fun entity_has :: "entity \<Rightarrow> component list \<Rightarrow> bool" where
  "entity_has e [] = True"
| "entity_has e (c # cs) =
     (if map_of (ent_components e) (comp_name c) = None then False else entity_has e cs)"

subsection \<open>Systems, the scene and the store\<close>

text \<open>
  \<open>sys_callable s f\<close> stands for \<open>typeof system[f] === "function"\<close>.
\<close>

record system =
  sys_scene :: "scene_ref option"
  sys_entities :: "eref list"
  sys_test :: "string \<Rightarrow> (string \<times> fields) list \<Rightarrow> bool"
  sys_callable :: "string \<Rightarrow> bool"

definition new_System :: "(string \<Rightarrow> (string \<times> fields) list \<Rightarrow> bool) \<Rightarrow> (string \<Rightarrow> bool) \<Rightarrow> system" where
  "new_System t f = \<lparr>sys_scene = None, sys_entities = [], sys_test = t, sys_callable = f\<rparr>"

record heap =
  ents :: "eref \<Rightarrow> entity"
  syss :: "sref \<Rightarrow> system"
  scene_entities :: "(string \<times> eref) list"
  scene_systems :: "sref list"
  scene_count :: nat

definition new_Scene :: "(eref \<Rightarrow> entity) \<Rightarrow> (sref \<Rightarrow> system) \<Rightarrow> heap" where
  "new_Scene es ss =
     \<lparr>ents = es, syss = ss, scene_entities = [], scene_systems = [], scene_count = 0\<rparr>"

text \<open>A call \<open>system[f](entity, param)\<close> and the store the callee finds.\<close>

datatype event = Call (ev_sys: sref) (ev_name: string) (ev_ent: eref) (ev_param: val) (ev_seen: heap)

definition matches :: "heap \<Rightarrow> sref \<Rightarrow> eref \<Rightarrow> bool" where
  "matches h s e = sys_test (syss h s) (ent_id (ents h e)) (ent_components (ents h e))"

definition push_system :: "eref \<Rightarrow> sref \<Rightarrow> heap \<Rightarrow> heap" where
  "push_system e s h = h\<lparr>ents := (ents h)(e := (ents h e)\<lparr>ent_systems := ent_systems (ents h e) @ [s]\<rparr>)\<rparr>"

definition push_entity :: "sref \<Rightarrow> eref \<Rightarrow> heap \<Rightarrow> heap" where
  "push_entity s e h = h\<lparr>syss := (syss h)(s := (syss h s)\<lparr>sys_entities := sys_entities (syss h s) @ [e]\<rparr>)\<rparr>"

subsection \<open>Entity.dispatch\<close>

fun entity_dispatch_loop :: "heap \<Rightarrow> eref \<Rightarrow> string \<Rightarrow> val \<Rightarrow> sref list \<Rightarrow> event list" where
  "entity_dispatch_loop h e f p [] = []"
| "entity_dispatch_loop h e f p (s # ss) =
     (if sys_callable (syss h s) f then Call s f e p h # entity_dispatch_loop h e f p ss
      else entity_dispatch_loop h e f p ss)"

definition entity_dispatch :: "heap \<Rightarrow> eref \<Rightarrow> string \<Rightarrow> val \<Rightarrow> unit \<times> heap \<times> event list" where
  "entity_dispatch h e f p = ((), h, entity_dispatch_loop h e f p (ent_systems (ents h e)))"

subsection \<open>Scene\<close>

text \<open>
  The counter \<open>_count\<close> is a natural number, and \<open>toString\<close> of it is its decimal
  form; the model does not follow a double beyond the integers it holds exactly.
\<close>

definition generateUID :: "heap \<Rightarrow> string \<times> heap" where
  "generateUID h = (show_nat (scene_count h), h\<lparr>scene_count := scene_count h + 1\<rparr>)"

definition getEntity :: "heap \<Rightarrow> string \<Rightarrow> eref option" where
  "getEntity h k = map_of (scene_entities h) k"

fun addEntity_loop :: "eref \<Rightarrow> sref list \<Rightarrow> heap \<Rightarrow> heap \<times> event list" where
  "addEntity_loop e [] h = (h, [])"
| "addEntity_loop e (s # ss) h =
     (if matches h s e then
        let h' = push_entity s e (push_system e s h);
            (h'', evs) = addEntity_loop e ss h'
        in (h'', Call s ''test'' e Undefined h # Call s ''init'' e Undefined h' # evs)
      else
        let (h'', evs) = addEntity_loop e ss h
        in (h'', Call s ''test'' e Undefined h # evs))"

definition addEntity :: "heap \<Rightarrow> eref \<Rightarrow> string option \<Rightarrow> eref \<times> heap \<times> event list" where
  "addEntity h e ident =
     (let (i, h1) = (case ident of None \<Rightarrow> generateUID h | Some i \<Rightarrow> (i, h));
          h2 = h1\<lparr>ents := (ents h1)(e := (ents h1 e)\<lparr>ent_id := i\<rparr>)\<rparr>;
          h3 = h2\<lparr>scene_entities := AList.update i e (scene_entities h2)\<rparr>;
          (h4, evs) = addEntity_loop e (scene_systems h3) h3
      in (e, h4, evs))"

text \<open>
  \<open>removeEntity\<close> starts with \<open>this._entities.indexOf(entity)\<close>. \<open>_entities\<close> is a plain
  object, so \<open>indexOf\<close> is looked up as a key: it is either undefined or, when an entity was
  stored under the id \<open>indexOf\<close>, an \<open>Entity\<close>; calling either throws a \<open>TypeError\<close>
  before anything is written.
\<close>

definition removeEntity :: "heap \<Rightarrow> eref \<Rightarrow> (error + unit) \<times> heap \<times> event list" where
  "removeEntity h e =
     (case getEntity h ''indexOf'' of
        None \<Rightarrow> (Inl TypeError, h, [])
      | Some x \<Rightarrow> (Inl TypeError, h, []))"

fun addSystem_loop :: "sref \<Rightarrow> (string \<times> eref) list \<Rightarrow> heap \<Rightarrow> heap \<times> event list" where
  "addSystem_loop s [] h = (h, [])"
| "addSystem_loop s ((k, e) # rest) h =
     (if matches h s e then
        let h' = push_system e s (push_entity s e h);
            (h'', evs) = addSystem_loop s rest h'
        in (h'', Call s ''test'' e Undefined h # Call s ''init'' e Undefined h' # evs)
      else
        let (h'', evs) = addSystem_loop s rest h
        in (h'', Call s ''test'' e Undefined h # evs))"

definition addSystem :: "heap \<Rightarrow> sref \<Rightarrow> unit \<times> heap \<times> event list" where
  "addSystem h s =
     (let h1 = h\<lparr>scene_systems := scene_systems h @ [s]\<rparr>;
          h2 = h1\<lparr>syss := (syss h1)(s := (syss h1 s)\<lparr>sys_scene := Some This_scene\<rparr>)\<rparr>;
          (h3, evs) = addSystem_loop s (for_in (scene_entities h2)) h2
      in ((), h3, evs))"

fun scene_dispatch_loop :: "heap \<Rightarrow> string \<Rightarrow> val \<Rightarrow> sref list \<Rightarrow> event list" where
  "scene_dispatch_loop h f p [] = []"
| "scene_dispatch_loop h f p (s # ss) =
     (if sys_callable (syss h s) f
      then map (\<lambda>e. Call s f e p h) (sys_entities (syss h s)) @ scene_dispatch_loop h f p ss
      else scene_dispatch_loop h f p ss)"

definition scene_dispatch :: "heap \<Rightarrow> string \<Rightarrow> val \<Rightarrow> unit \<times> heap \<times> event list" where
  "scene_dispatch h f p = ((), h, scene_dispatch_loop h f p (scene_systems h))"

fun query_loop :: "heap \<Rightarrow> component list \<Rightarrow> (string \<times> eref) list \<Rightarrow> eref list \<Rightarrow> eref list" where
  "query_loop h cs [] ms = ms"
| "query_loop h cs ((k, e) # rest) ms =
     (if entity_has (ents h e) cs then query_loop h cs rest (ms @ [e]) else query_loop h cs rest ms)"

definition query :: "heap \<Rightarrow> component list \<Rightarrow> eref list \<times> heap \<times> event list" where
  "query h cs = (query_loop h cs (for_in (scene_entities h)) [], h, [])"

fun addComponentToEntity_loop :: "eref \<Rightarrow> sref list \<Rightarrow> heap \<Rightarrow> heap \<times> event list" where
  "addComponentToEntity_loop e [] h = (h, [])"
| "addComponentToEntity_loop e (s # ss) h =
     (if e \<notin> set (sys_entities (syss h s)) then
        if matches h s e then
          let h' = push_system e s (push_entity s e h);
              (h'', evs) = addComponentToEntity_loop e ss h'
          in (h'', Call s ''test'' e Undefined h # Call s ''init'' e Undefined h' # evs)
        else
          let (h'', evs) = addComponentToEntity_loop e ss h
          in (h'', Call s ''test'' e Undefined h # evs)
      else addComponentToEntity_loop e ss h)"

definition addComponentToEntity :: "heap \<Rightarrow> eref \<Rightarrow> component \<Rightarrow> unit \<times> heap \<times> event list" where
  "addComponentToEntity h e c =
     (let h1 = h\<lparr>ents := (ents h)(e := entity_add (ents h e) c)\<rparr>;
          (h2, evs) = addComponentToEntity_loop e (scene_systems h1) h1
      in ((), h2, evs))"

subsection \<open>The store after a call\<close>

definition heap_of :: "'a \<times> heap \<times> event list \<Rightarrow> heap" where
  "heap_of r = fst (snd r)"

definition events_of :: "'a \<times> heap \<times> event list \<Rightarrow> event list" where
  "events_of r = snd (snd r)"

definition result_of :: "'a \<times> heap \<times> event list \<Rightarrow> 'a" where
  "result_of r = fst r"

text \<open>A call without the store it saw: system, method, entity, parameter.\<close>

definition signature :: "event \<Rightarrow> sref \<times> string \<times> eref \<times> val" where
  "signature ev = (ev_sys ev, ev_name ev, ev_ent ev, ev_param ev)"

definition inits_of :: "event list \<Rightarrow> sref list" where
  "inits_of evs = map ev_sys (filter (\<lambda>ev. ev_name ev = ''init'') evs)"

definition tests_of :: "event list \<Rightarrow> sref list" where
  "tests_of evs = map ev_sys (filter (\<lambda>ev. ev_name ev = ''test'') evs)"

subsection \<open>Properties of a store\<close>

text \<open>What the loops of the scene leave alone: the scene's own fields, the id and the
  components of every entity, and the scene and the methods of every system.\<close>

definition same_frame :: "heap \<Rightarrow> heap \<Rightarrow> bool" where
  "same_frame h h' \<longleftrightarrow>
     scene_entities h' = scene_entities h \<and> scene_systems h' = scene_systems h \<and>
     scene_count h' = scene_count h \<and>
     (\<forall>x. ent_id (ents h' x) = ent_id (ents h x) \<and>
          ent_components (ents h' x) = ent_components (ents h x)) \<and>
     (\<forall>s. sys_scene (syss h' s) = sys_scene (syss h s) \<and>
          sys_test (syss h' s) = sys_test (syss h s) \<and>
          sys_callable (syss h' s) = sys_callable (syss h s))"

definition symmetric_membership :: "heap \<Rightarrow> bool" where
  "symmetric_membership h \<longleftrightarrow>
     (\<forall>e s. e \<in> set (sys_entities (syss h s)) \<longleftrightarrow> s \<in> set (ent_systems (ents h e)))"

definition entity_in_scene :: "heap \<Rightarrow> eref \<Rightarrow> bool" where
  "entity_in_scene h e \<longleftrightarrow> (\<exists>k \<in> set (map fst (scene_entities h)). getEntity h k = Some e)"

definition system_in_scene :: "heap \<Rightarrow> sref \<Rightarrow> bool" where
  "system_in_scene h s \<longleftrightarrow> s \<in> set (scene_systems h)"

definition consistent :: "heap \<Rightarrow> bool" where
  "consistent h \<longleftrightarrow>
     (\<forall>e s. e \<in> set (sys_entities (syss h s)) \<longleftrightarrow>
            matches h s e \<and> entity_in_scene h e \<and> system_in_scene h s)"

subsection \<open>Example objects\<close>

definition Position :: component where
  "Position = \<lparr>comp_name = ''Position'', comp_new = [(''x'', Num 0), (''y'', Num 0)]\<rparr>"

definition Velocity :: component where
  "Velocity = \<lparr>comp_name = ''Velocity'', comp_new = [(''dx'', Num 0), (''dy'', Num 0)]\<rparr>"

text \<open>System 0 matches the entities that have a \<open>Position\<close>, system 1 every entity; the
  other systems keep the default \<open>test\<close>. Systems 0 and 1 define a hook \<open>foo\<close>.\<close>

definition ex_systems :: "sref \<Rightarrow> system" where
  "ex_systems s =
     (if s = 0 then new_System (\<lambda>i cs. map_of cs ''Position'' \<noteq> None)
                      (\<lambda>f. f \<in> set [''test'', ''init'', ''exit'', ''foo''])
      else if s = 1 then new_System (\<lambda>i cs. True)
                      (\<lambda>f. f \<in> set [''test'', ''init'', ''exit'', ''foo''])
      else new_System (\<lambda>i cs. False) (\<lambda>f. f \<in> set [''test'', ''init'', ''exit'']))"

definition ex_scene :: heap where
  "ex_scene = new_Scene (\<lambda>e. new_Entity []) ex_systems"

text \<open>Three stores built with the operations of the scene: systems 0 and 1 are added to
  an empty scene, then entity 0 without components, then a \<open>Position\<close> is added to it.\<close>

definition ex_scene1 :: heap where
  "ex_scene1 = heap_of (addSystem (heap_of (addSystem ex_scene 0)) 1)"

definition ex_scene2 :: heap where
  "ex_scene2 = heap_of (addEntity ex_scene1 0 None)"

definition ex_scene3 :: heap where
  "ex_scene3 = heap_of (addComponentToEntity ex_scene2 0 Position)"

text \<open>Scenario 2: an entity without \<open>Position\<close> is added to an empty scene, then
  system 0, whose \<open>test\<close> is \<open>entity.has(Position)\<close>.\<close>

definition ex_scenario2a :: heap where
  "ex_scenario2a = heap_of (addEntity ex_scene 0 None)"

definition ex_scenario2b :: heap where
  "ex_scenario2b = heap_of (addSystem ex_scenario2a 0)"

text \<open>An id used twice: entity 0 is added to the scene of systems 0 and 1 under the id
  \<open>a\<close>, then entity 1 under the same id.\<close>

definition ex_collisionA :: heap where
  "ex_collisionA = heap_of (addEntity ex_scene1 0 (Some ''a''))"

definition ex_collisionB :: heap where
  "ex_collisionB = heap_of (addEntity ex_collisionA 1 (Some ''a''))"

text \<open>A second family of systems: the \<open>test\<close> of system 0 reads the id of the entity
  (it holds of the entity with id \<open>a\<close>), the \<open>test\<close> of system 1 holds of the entities
  without a \<open>Position\<close>; the other systems keep the default \<open>test\<close>.\<close>

definition ex_systems_b :: "sref \<Rightarrow> system" where
  "ex_systems_b s =
     (if s = 0 then new_System (\<lambda>i cs. i = ''a'') (\<lambda>f. f \<in> set [''test'', ''init'', ''exit''])
      else if s = 1 then new_System (\<lambda>i cs. map_of cs ''Position'' = None)
                      (\<lambda>f. f \<in> set [''test'', ''init'', ''exit''])
      else new_System (\<lambda>i cs. False) (\<lambda>f. f \<in> set [''test'', ''init'', ''exit'']))"

definition ex_scene_b :: heap where
  "ex_scene_b = new_Scene (\<lambda>e. new_Entity []) ex_systems_b"

text \<open>An entity added twice: entity 0 is added under the id \<open>a\<close> to the scene of system 0
  of the second family, and then added again under the id \<open>b\<close>.\<close>

definition ex_readdA :: heap where
  "ex_readdA = heap_of (addEntity (heap_of (addSystem ex_scene_b 0)) 0 (Some ''a''))"

definition ex_readdB :: heap where
  "ex_readdB = heap_of (addEntity ex_readdA 0 (Some ''b''))"

text \<open>A membership that goes stale: entity 0, without components, is added to the scene of
  system 1 of the second family, and then gets a \<open>Position\<close>.\<close>

definition ex_staleA :: heap where
  "ex_staleA = heap_of (addEntity (heap_of (addSystem ex_scene_b 1)) 0 None)"

definition ex_staleB :: heap where
  "ex_staleB = heap_of (addComponentToEntity ex_staleA 0 Position)"

text \<open>A component added, through the scene, to entity 5, which is not in the scene.\<close>

definition ex_detached :: heap where
  "ex_detached = heap_of (addComponentToEntity ex_scene1 5 Position)"

subsection \<open>An \<open>init\<close> that writes to the store\<close>

text \<open>
  The operations above give the methods of a system no effect on the store. To see what
  \<open>addEntity\<close> leaves when an \<open>init\<close> does write, the loop of \<open>addEntity\<close> is given
  here with the effect of \<open>system.init(entity)\<close> as a parameter \<open>fx\<close>, applied where the
  source calls \<open>init\<close>, after the two pushes (the effect is taken to leave the scene's array
  of systems alone, so that the loop still runs over the same systems). With the effect
  that changes nothing, this is the store \<open>addEntity\<close> leaves (lemma
  \<open>addEntity_init_plain\<close>).
\<close>

fun addEntity_loop_init :: "(sref \<Rightarrow> eref \<Rightarrow> heap \<Rightarrow> heap) \<Rightarrow> eref \<Rightarrow> sref list \<Rightarrow> heap \<Rightarrow> heap" where
  "addEntity_loop_init fx e [] h = h"
| "addEntity_loop_init fx e (s # ss) h =
     (if matches h s e
      then addEntity_loop_init fx e ss (fx s e (push_entity s e (push_system e s h)))
      else addEntity_loop_init fx e ss h)"

definition addEntity_init :: "(sref \<Rightarrow> eref \<Rightarrow> heap \<Rightarrow> heap) \<Rightarrow> heap \<Rightarrow> eref \<Rightarrow> string option \<Rightarrow> heap" where
  "addEntity_init fx h e ident =
     (let (i, h1) = (case ident of None \<Rightarrow> generateUID h | Some i \<Rightarrow> (i, h));
          h2 = h1\<lparr>ents := (ents h1)(e := (ents h1 e)\<lparr>ent_id := i\<rparr>)\<rparr>;
          h3 = h2\<lparr>scene_entities := AList.update i e (scene_entities h2)\<rparr>
      in addEntity_loop_init fx e (scene_systems h3) h3)"

text \<open>The \<open>init\<close> of system 1 calls \<open>entity.add(Position)\<close>; the other systems keep the
  default \<open>init\<close>. Entity 0 is added to the scene of systems 0 and 1 of the first family.\<close>

definition ex_init_adds :: "sref \<Rightarrow> eref \<Rightarrow> heap \<Rightarrow> heap" where
  "ex_init_adds s e h = (if s = 1 then h\<lparr>ents := (ents h)(e := entity_add (ents h e) Position)\<rparr> else h)"

definition ex_init_writes :: heap where
  "ex_init_writes = addEntity_init ex_init_adds ex_scene1 0 None"

section \<open>Basic facts\<close>

lemmas ex_eval = heap_of_def events_of_def result_of_def addSystem_def addEntity_def addComponentToEntity_def
  Let_def split_beta matches_def push_system_def push_entity_def ex_systems_def new_System_def new_Scene_def
  new_Entity_def generateUID_def for_in_def show_nat.simps digit_char_def ex_scene_def entity_add_def Position_def
  is_array_index_def is_digit_def dec_value_def digit_val_def getEntity_def
  addEntity_loop.simps(2) addSystem_loop.simps(2) addComponentToEntity_loop.simps(2)

subsection \<open>Enumeration order and decimal strings\<close>

lemma set_for_in: "set (for_in kvs) = set kvs"
  by (auto simp: for_in_def)

lemma for_in_Nil_iff: "for_in kvs = [] \<longleftrightarrow> kvs = []"
  using set_for_in [of kvs] by (metis set_empty)

lemma length_for_in: "length (for_in kvs) = length kvs"
  by (simp add: for_in_def sum_length_filter_compl)

lemma distinct_for_in: "distinct kvs \<Longrightarrow> distinct (for_in kvs)"
  by (auto simp: for_in_def)

lemma distinct_keys_for_in:
  assumes "distinct (map fst kvs)"
  shows "distinct (map fst (for_in kvs))"
proof -
  from assms have d: "distinct kvs" and i: "inj_on fst (set kvs)"
    by (simp_all add: distinct_map)
  show ?thesis
    by (simp add: distinct_map distinct_for_in [OF d] set_for_in i)
qed

lemma for_in_lookup:
  "distinct (map fst kvs) \<Longrightarrow> (k, v) \<in> set (for_in kvs) \<Longrightarrow> map_of kvs k = Some v"
  by (simp add: set_for_in)

lemma map_of_for_in: "distinct (map fst kvs) \<Longrightarrow> map_of (for_in kvs) = map_of kvs"
  by (simp add: map_of_inject_set distinct_keys_for_in set_for_in)


lemma map_of_rev_for_in:
  assumes "distinct (map fst data)"
  shows "map_of (rev (for_in data)) = map_of data"
proof -
  have "distinct (map fst (rev (for_in data)))"
    using distinct_keys_for_in [OF assms] by (simp add: rev_map [symmetric])
  then show ?thesis
    using assms by (simp add: map_of_inject_set set_for_in)
qed


lemma digit_val_digit_char: "d < 10 \<Longrightarrow> digit_val (digit_char d) = d"
proof -
  assume "d < 10"
  then have "d \<in> {0, 1, 2, 3, 4, 5, 6, 7, 8, 9}" by auto
  then show ?thesis
    by (elim insertE emptyE) (simp_all add: digit_char_def digit_val_def)
qed

lemma dec_value_snoc: "dec_value (s @ [c]) = 10 * dec_value s + digit_val c"
  by (simp add: dec_value_def)

lemma dec_value_show_nat: "dec_value (show_nat n) = n"
proof (induction n rule: show_nat.induct)
  case (1 n)
  show ?case
  proof (cases "n < 10")
    case True
    then show ?thesis
      by (subst show_nat.simps) (simp add: dec_value_def digit_val_digit_char)
  next
    case False
    with 1 have "dec_value (show_nat (n div 10)) = n div 10" by simp
    with False show ?thesis
      by (subst show_nat.simps) (simp add: dec_value_snoc digit_val_digit_char)
  qed
qed

lemma show_nat_inj: "show_nat m = show_nat n \<Longrightarrow> m = n"
  by (metis dec_value_show_nat)

lemma show_nat_nonempty: "show_nat n \<noteq> []"
  by (subst show_nat.simps) simp


subsection \<open>Entity methods and read-only loops\<close>

lemma entity_set_loop_missing:
  "entity_get e c = None \<Longrightarrow> kvs \<noteq> [] \<Longrightarrow> entity_set_loop e c kvs = Inl TypeError"
  by (cases kvs) auto

lemma map_of_update_fields:
  "map_of (foldl (\<lambda>i kv. AList.update (fst kv) (snd kv) i) inst kvs) = map_of inst ++ map_of (rev kvs)"
  by (induction kvs arbitrary: inst) (auto simp: update_conv')

lemma entity_set_loop_held:
  "entity_get e c = Some inst \<Longrightarrow>
   entity_set_loop e c kvs =
     Inr (if kvs = [] then e else e\<lparr>ent_components := AList.update (comp_name c)
             (foldl (\<lambda>i kv. AList.update (fst kv) (snd kv) i) inst kvs) (ent_components e)\<rparr>)"
proof (induction kvs arbitrary: e inst)
  case Nil
  then show ?case by simp
next
  case (Cons kv kvs)
  obtain k v where kv: "kv = (k, v)" by (cases kv)
  let ?e = "e\<lparr>ent_components := AList.update (comp_name c) (AList.update k v inst) (ent_components e)\<rparr>"
  have g: "entity_get ?e c = Some (AList.update k v inst)"
    by (simp add: entity_get_def update_conv')
  show ?case
    using Cons.prems Cons.IH [OF g] by (simp add: kv)
qed

lemma query_loop_filter:
  "query_loop h cs kvs ms = ms @ filter (\<lambda>e. entity_has (ents h e) cs) (map snd kvs)"
  by (induction kvs arbitrary: ms) auto

lemma entity_has_iff: "entity_has e cs \<longleftrightarrow> (\<forall>c \<in> set cs. entity_get e c \<noteq> None)"
  by (induction cs) (auto simp: entity_get_def)

lemma entity_dispatch_loop_filter:
  "entity_dispatch_loop h e f p ss = map (\<lambda>s. Call s f e p h) (filter (\<lambda>s. sys_callable (syss h s) f) ss)"
  by (induction ss) auto

subsection \<open>What the loops leave alone\<close>

lemma same_frame_refl: "same_frame h h"
  by (simp add: same_frame_def)

lemma same_frame_trans: "same_frame h h' \<Longrightarrow> same_frame h' h'' \<Longrightarrow> same_frame h h''"
  by (simp add: same_frame_def)

lemma same_frame_push_system: "same_frame h (push_system e s h)"
  by (simp add: same_frame_def push_system_def)

lemma same_frame_push_entity: "same_frame h (push_entity s e h)"
  by (simp add: same_frame_def push_entity_def)

lemma same_frame_link1: "same_frame h (push_entity s e (push_system e s h))"
  by (rule same_frame_trans [OF same_frame_push_system same_frame_push_entity])

lemma same_frame_link2: "same_frame h (push_system e s (push_entity s e h))"
  by (rule same_frame_trans [OF same_frame_push_entity same_frame_push_system])

lemma matches_same_frame: "same_frame h h' \<Longrightarrow> matches h' s e = matches h s e"
  by (simp add: same_frame_def matches_def)

lemma addEntity_loop_frame: "same_frame h (fst (addEntity_loop e ss h))"
proof (induction ss arbitrary: h)
  case Nil
  show ?case by (simp add: same_frame_refl)
next
  case (Cons s ss)
  show ?case
  proof (cases "matches h s e")
    case True
    have "same_frame h (fst (addEntity_loop e ss (push_entity s e (push_system e s h))))"
      by (rule same_frame_trans [OF same_frame_link1 Cons.IH])
    with True show ?thesis by (simp add: Let_def split_beta)
  next
    case False
    with Cons.IH [of h] show ?thesis by (simp add: split_beta)
  qed
qed

lemma addSystem_loop_frame: "same_frame h (fst (addSystem_loop s kvs h))"
proof (induction kvs arbitrary: h)
  case Nil
  show ?case by (simp add: same_frame_refl)
next
  case (Cons kv kvs)
  obtain k e where kv: "kv = (k, e)" by (cases kv)
  show ?case
  proof (cases "matches h s e")
    case True
    have "same_frame h (fst (addSystem_loop s kvs (push_system e s (push_entity s e h))))"
      by (rule same_frame_trans [OF same_frame_link2 Cons.IH])
    with True show ?thesis by (simp add: kv Let_def split_beta)
  next
    case False
    with Cons.IH [of h] show ?thesis by (simp add: kv split_beta)
  qed
qed

lemma addComponentToEntity_loop_frame: "same_frame h (fst (addComponentToEntity_loop e ss h))"
proof (induction ss arbitrary: h)
  case Nil
  show ?case by (simp add: same_frame_refl)
next
  case (Cons s ss)
  show ?case
  proof (cases "e \<notin> set (sys_entities (syss h s)) \<and> matches h s e")
    case True
    have "same_frame h (fst (addComponentToEntity_loop e ss (push_system e s (push_entity s e h))))"
      by (rule same_frame_trans [OF same_frame_link2 Cons.IH])
    with True show ?thesis by (simp add: Let_def split_beta)
  next
    case False
    with Cons.IH [of h] show ?thesis by (auto simp: split_beta)
  qed
qed

lemma heap_of_addEntity:
  "heap_of (addEntity h e ident) =
     fst (addEntity_loop e (scene_systems h)
       (h\<lparr>scene_count := (case ident of None \<Rightarrow> scene_count h + 1 | Some i \<Rightarrow> scene_count h),
          ents := (ents h)(e := (ents h e)\<lparr>ent_id := (case ident of None \<Rightarrow> show_nat (scene_count h) | Some i \<Rightarrow> i)\<rparr>),
          scene_entities := AList.update (case ident of None \<Rightarrow> show_nat (scene_count h) | Some i \<Rightarrow> i) e (scene_entities h)\<rparr>))"
  by (cases ident) (simp_all add: heap_of_def addEntity_def generateUID_def Let_def split_beta)

lemma heap_of_addSystem:
  "heap_of (addSystem h s) =
     fst (addSystem_loop s (for_in (scene_entities h))
       (h\<lparr>scene_systems := scene_systems h @ [s],
          syss := (syss h)(s := (syss h s)\<lparr>sys_scene := Some This_scene\<rparr>)\<rparr>))"
  by (simp add: heap_of_def addSystem_def Let_def split_beta)

lemma heap_of_addComponentToEntity:
  "heap_of (addComponentToEntity h e c) =
     fst (addComponentToEntity_loop e (scene_systems h) (h\<lparr>ents := (ents h)(e := entity_add (ents h e) c)\<rparr>))"
  by (simp add: heap_of_def addComponentToEntity_def Let_def split_beta)

lemma scene_count_addEntity:
  "scene_count (heap_of (addEntity h e ident)) = (case ident of None \<Rightarrow> scene_count h + 1 | Some i \<Rightarrow> scene_count h)"
  using addEntity_loop_frame [of "(h\<lparr>scene_count := (case ident of None \<Rightarrow> scene_count h + 1 | Some i \<Rightarrow> scene_count h),
          ents := (ents h)(e := (ents h e)\<lparr>ent_id := (case ident of None \<Rightarrow> show_nat (scene_count h) | Some i \<Rightarrow> i)\<rparr>),
          scene_entities := AList.update (case ident of None \<Rightarrow> show_nat (scene_count h) | Some i \<Rightarrow> i) e (scene_entities h)\<rparr>)" e "scene_systems h"]
  by (simp add: heap_of_addEntity same_frame_def)

lemma scene_count_addSystem: "scene_count (heap_of (addSystem h s)) = scene_count h"
  using addSystem_loop_frame [of "(h\<lparr>scene_systems := scene_systems h @ [s],
          syss := (syss h)(s := (syss h s)\<lparr>sys_scene := Some This_scene\<rparr>)\<rparr>)" s "for_in (scene_entities h)"]
  by (simp add: heap_of_addSystem same_frame_def)

lemma scene_count_addComponentToEntity: "scene_count (heap_of (addComponentToEntity h e c)) = scene_count h"
  using addComponentToEntity_loop_frame [of "h\<lparr>ents := (ents h)(e := entity_add (ents h e) c)\<rparr>" e "scene_systems h"]
  by (simp add: heap_of_addComponentToEntity same_frame_def)

lemma heap_of_removeEntity: "heap_of (removeEntity h e) = h"
  by (simp add: heap_of_def removeEntity_def split: option.splits)

subsection \<open>Closed forms of the membership loops\<close>

lemma ents_push_system:
  "ents (push_system e s h) = (ents h)(e := (ents h e)\<lparr>ent_systems := ent_systems (ents h e) @ [s]\<rparr>)"
  by (simp add: push_system_def)

lemma syss_push_system: "syss (push_system e s h) = syss h"
  by (simp add: push_system_def)

lemma ents_push_entity: "ents (push_entity s e h) = ents h"
  by (simp add: push_entity_def)

lemma syss_push_entity:
  "syss (push_entity s e h) = (syss h)(s := (syss h s)\<lparr>sys_entities := sys_entities (syss h s) @ [e]\<rparr>)"
  by (simp add: push_entity_def)

lemma matches_push_system: "matches (push_system e s h) = matches h"
  by (intro ext) (simp add: matches_def push_system_def)

lemma matches_push_entity: "matches (push_entity s e h) = matches h"
  by (intro ext) (simp add: matches_def push_entity_def)

lemmas push_simps = ents_push_system syss_push_system ents_push_entity syss_push_entity
  matches_push_system matches_push_entity

lemma fst_addEntity_loop_Cons:
  "fst (addEntity_loop e (s # ss) h) =
     fst (addEntity_loop e ss (if matches h s e then push_entity s e (push_system e s h) else h))"
  by (simp add: Let_def split_beta)

lemma snd_addEntity_loop_Cons:
  "snd (addEntity_loop e (s # ss) h) =
     (if matches h s e
      then Call s ''test'' e Undefined h # Call s ''init'' e Undefined (push_entity s e (push_system e s h))
             # snd (addEntity_loop e ss (push_entity s e (push_system e s h)))
      else Call s ''test'' e Undefined h # snd (addEntity_loop e ss h))"
  by (simp add: Let_def split_beta)

declare addEntity_loop.simps(2) [simp del]

lemma signature_Call: "signature (Call s f e p h) = (s, f, e, p)"
  by (simp add: signature_def)

lemma ents_addEntity_loop:
  "ents (fst (addEntity_loop e ss h)) x =
     (if x = e then (ents h e)\<lparr>ent_systems := ent_systems (ents h e) @ filter (\<lambda>s. matches h s e) ss\<rparr>
      else ents h x)"
proof (induction ss arbitrary: h)
  case Nil
  show ?case by simp
next
  case (Cons s ss)
  show ?case
  proof (cases "matches h s e")
    case True
    then show ?thesis
      by (simp add: fst_addEntity_loop_Cons Cons.IH push_simps)
  next
    case False
    then show ?thesis
      by (simp add: fst_addEntity_loop_Cons Cons.IH)
  qed
qed

lemma syss_addEntity_loop:
  "syss (fst (addEntity_loop e ss h)) t =
     (syss h t)\<lparr>sys_entities := sys_entities (syss h t) @ replicate (count_list (filter (\<lambda>s. matches h s e) ss) t) e\<rparr>"
proof (induction ss arbitrary: h)
  case Nil
  show ?case by simp
next
  case (Cons s ss)
  show ?case
  proof (cases "matches h s e")
    case True
    then show ?thesis
      by (simp add: fst_addEntity_loop_Cons Cons.IH push_simps replicate_app_Cons_same)
  next
    case False
    then show ?thesis
      by (simp add: fst_addEntity_loop_Cons Cons.IH)
  qed
qed

lemma signature_addEntity_loop:
  "map signature (snd (addEntity_loop e ss h)) =
     concat (map (\<lambda>s. if matches h s e
                        then [(s, ''test'', e, Undefined), (s, ''init'', e, Undefined)]
                        else [(s, ''test'', e, Undefined)]) ss)"
proof (induction ss arbitrary: h)
  case Nil
  show ?case by simp
next
  case (Cons s ss)
  show ?case
  proof (cases "matches h s e")
    case True
    then show ?thesis
      by (simp add: snd_addEntity_loop_Cons Cons.IH push_simps signature_Call)
  next
    case False
    then show ?thesis
      by (simp add: snd_addEntity_loop_Cons Cons.IH signature_Call)
  qed
qed

lemma inits_of_addEntity_loop:
  "inits_of (snd (addEntity_loop e ss h)) = filter (\<lambda>s. matches h s e) ss"
proof (induction ss arbitrary: h)
  case Nil
  show ?case by (simp add: inits_of_def)
next
  case (Cons s ss)
  from Cons.IH [of h] Cons.IH [of "push_entity s e (push_system e s h)"]
  show ?case
    unfolding snd_addEntity_loop_Cons
    by (simp add: push_simps inits_of_def)
qed

lemma tests_of_addEntity_loop: "tests_of (snd (addEntity_loop e ss h)) = ss"
proof (induction ss arbitrary: h)
  case Nil
  show ?case by (simp add: tests_of_def)
next
  case (Cons s ss)
  from Cons.IH [of h] Cons.IH [of "push_entity s e (push_system e s h)"]
  show ?case
    unfolding snd_addEntity_loop_Cons
    by (simp add: tests_of_def)
qed

lemma seen_addEntity_loop:
  "ev \<in> set (snd (addEntity_loop e ss h)) \<Longrightarrow>
     same_frame h (ev_seen ev) \<and> ev_ent ev = e \<and> ev_name ev \<in> {''test'', ''init''}"
proof (induction ss arbitrary: h)
  case Nil
  then show ?case by simp
next
  case (Cons s ss)
  show ?case
  proof (cases "matches h s e")
    case True
    let ?h = "push_entity s e (push_system e s h)"
    from Cons.prems True
    consider "ev = Call s ''test'' e Undefined h" | "ev = Call s ''init'' e Undefined ?h"
      | "ev \<in> set (snd (addEntity_loop e ss ?h))"
      unfolding snd_addEntity_loop_Cons by auto
    then show ?thesis
    proof cases
      case 1
      then show ?thesis by (simp add: same_frame_refl)
    next
      case 2
      then show ?thesis by (simp add: same_frame_link1)
    next
      case 3
      from Cons.IH [OF 3] same_frame_trans [OF same_frame_link1]
      show ?thesis by blast
    qed
  next
    case False
    with Cons.prems
    consider "ev = Call s ''test'' e Undefined h" | "ev \<in> set (snd (addEntity_loop e ss h))"
      unfolding snd_addEntity_loop_Cons by auto
    then show ?thesis
    proof cases
      case 1
      then show ?thesis by (simp add: same_frame_refl)
    next
      case 2
      from Cons.IH [OF 2] show ?thesis .
    qed
  qed
qed

lemma fst_addSystem_loop_Cons:
  "fst (addSystem_loop s ((k, e) # rest) h) =
     fst (addSystem_loop s rest (if matches h s e then push_system e s (push_entity s e h) else h))"
  by (simp add: Let_def split_beta)

lemma snd_addSystem_loop_Cons:
  "snd (addSystem_loop s ((k, e) # rest) h) =
     (if matches h s e
      then Call s ''test'' e Undefined h # Call s ''init'' e Undefined (push_system e s (push_entity s e h))
             # snd (addSystem_loop s rest (push_system e s (push_entity s e h)))
      else Call s ''test'' e Undefined h # snd (addSystem_loop s rest h))"
  by (simp add: Let_def split_beta)

lemma fst_addComponentToEntity_loop_Cons:
  "fst (addComponentToEntity_loop e (s # ss) h) =
     fst (addComponentToEntity_loop e ss
       (if e \<notin> set (sys_entities (syss h s)) \<and> matches h s e
        then push_system e s (push_entity s e h) else h))"
  by (simp add: Let_def split_beta)

lemma snd_addComponentToEntity_loop_Cons:
  "snd (addComponentToEntity_loop e (s # ss) h) =
     (if e \<notin> set (sys_entities (syss h s)) then
        if matches h s e
        then Call s ''test'' e Undefined h # Call s ''init'' e Undefined (push_system e s (push_entity s e h))
               # snd (addComponentToEntity_loop e ss (push_system e s (push_entity s e h)))
        else Call s ''test'' e Undefined h # snd (addComponentToEntity_loop e ss h)
      else snd (addComponentToEntity_loop e ss h))"
  by (simp add: Let_def split_beta)

declare addSystem_loop.simps(2) [simp del]
declare addComponentToEntity_loop.simps(2) [simp del]

lemma syss_addSystem_loop:
  "syss (fst (addSystem_loop s kvs h)) t =
     (if t = s
      then (syss h s)\<lparr>sys_entities := sys_entities (syss h s) @ filter (\<lambda>e. matches h s e) (map snd kvs)\<rparr>
      else syss h t)"
proof (induction kvs arbitrary: h)
  case Nil
  show ?case by simp
next
  case (Cons kv kvs)
  obtain k e where kv: "kv = (k, e)" by (cases kv)
  show ?case
  proof (cases "matches h s e")
    case True
    then show ?thesis
      by (simp add: kv fst_addSystem_loop_Cons Cons.IH push_simps)
  next
    case False
    then show ?thesis
      by (simp add: kv fst_addSystem_loop_Cons Cons.IH)
  qed
qed

lemma ents_addSystem_loop:
  "ents (fst (addSystem_loop s kvs h)) x =
     (ents h x)\<lparr>ent_systems := ent_systems (ents h x)
        @ replicate (count_list (filter (\<lambda>e. matches h s e) (map snd kvs)) x) s\<rparr>"
proof (induction kvs arbitrary: h)
  case Nil
  show ?case by simp
next
  case (Cons kv kvs)
  obtain k e where kv: "kv = (k, e)" by (cases kv)
  show ?case
  proof (cases "matches h s e")
    case True
    then show ?thesis
      by (simp add: kv fst_addSystem_loop_Cons Cons.IH push_simps replicate_app_Cons_same)
  next
    case False
    then show ?thesis
      by (simp add: kv fst_addSystem_loop_Cons Cons.IH)
  qed
qed

lemma seen_addSystem_loop:
  "ev \<in> set (snd (addSystem_loop s kvs h)) \<Longrightarrow>
     same_frame h (ev_seen ev) \<and> ev_sys ev = s \<and> ev_name ev \<in> {''test'', ''init''}"
proof (induction kvs arbitrary: h)
  case Nil
  then show ?case by simp
next
  case (Cons kv kvs)
  obtain k e where kv: "kv = (k, e)" by (cases kv)
  show ?case
  proof (cases "matches h s e")
    case True
    let ?h = "push_system e s (push_entity s e h)"
    from Cons.prems True
    consider "ev = Call s ''test'' e Undefined h" | "ev = Call s ''init'' e Undefined ?h"
      | "ev \<in> set (snd (addSystem_loop s kvs ?h))"
      unfolding kv snd_addSystem_loop_Cons by auto
    then show ?thesis
    proof cases
      case 1
      then show ?thesis by (simp add: same_frame_refl)
    next
      case 2
      then show ?thesis by (simp add: same_frame_link2)
    next
      case 3
      from Cons.IH [OF 3] same_frame_trans [OF same_frame_link2]
      show ?thesis by blast
    qed
  next
    case False
    with Cons.prems
    consider "ev = Call s ''test'' e Undefined h" | "ev \<in> set (snd (addSystem_loop s kvs h))"
      unfolding kv snd_addSystem_loop_Cons by auto
    then show ?thesis
    proof cases
      case 1
      then show ?thesis by (simp add: same_frame_refl)
    next
      case 2
      from Cons.IH [OF 2] show ?thesis .
    qed
  qed
qed

lemma syss_addComponentToEntity_loop:
  "syss (fst (addComponentToEntity_loop e ss h)) t =
     (syss h t)\<lparr>sys_entities := sys_entities (syss h t)
        @ (if t \<in> set ss \<and> e \<notin> set (sys_entities (syss h t)) \<and> matches h t e then [e] else [])\<rparr>"
proof (induction ss arbitrary: h)
  case Nil
  show ?case by simp
next
  case (Cons s ss)
  show ?case
  proof (cases "e \<notin> set (sys_entities (syss h s)) \<and> matches h s e")
    case True
    then show ?thesis
      by (simp add: fst_addComponentToEntity_loop_Cons Cons.IH push_simps)
  next
    case False
    then show ?thesis
      by (auto simp: fst_addComponentToEntity_loop_Cons Cons.IH)
  qed
qed

lemma inits_of_addComponentToEntity_loop:
  "set (inits_of (snd (addComponentToEntity_loop e ss h))) =
     {s \<in> set ss. e \<notin> set (sys_entities (syss h s)) \<and> matches h s e} \<and>
   distinct (inits_of (snd (addComponentToEntity_loop e ss h)))"
proof (induction ss arbitrary: h)
  case Nil
  show ?case by (simp add: inits_of_def)
next
  case (Cons s ss)
  show ?case
  proof (cases "e \<notin> set (sys_entities (syss h s)) \<and> matches h s e")
    case True
    let ?h = "push_system e s (push_entity s e h)"
    have i: "inits_of (snd (addComponentToEntity_loop e (s # ss) h)) =
               s # inits_of (snd (addComponentToEntity_loop e ss ?h))"
      using True by (simp add: snd_addComponentToEntity_loop_Cons inits_of_def)
    have f: "{t \<in> set ss. e \<notin> set (sys_entities (syss ?h t)) \<and> matches ?h t e} =
             {t \<in> set ss. t \<noteq> s \<and> e \<notin> set (sys_entities (syss h t)) \<and> matches h t e}"
      by (auto simp: push_simps)
    from Cons.IH [of ?h] True show ?thesis
      unfolding i f by auto
  next
    case False
    have i: "inits_of (snd (addComponentToEntity_loop e (s # ss) h)) =
               inits_of (snd (addComponentToEntity_loop e ss h))"
      using False by (auto simp: snd_addComponentToEntity_loop_Cons inits_of_def)
    from Cons.IH [of h] False show ?thesis
      unfolding i by auto
  qed
qed

lemma ents_addComponentToEntity_loop:
  "ents (fst (addComponentToEntity_loop e ss h)) x =
     (if x = e
      then (ents h e)\<lparr>ent_systems := ent_systems (ents h e)
             @ inits_of (snd (addComponentToEntity_loop e ss h))\<rparr>
      else ents h x)"
proof (induction ss arbitrary: h)
  case Nil
  show ?case by (simp add: inits_of_def)
next
  case (Cons s ss)
  show ?case
  proof (cases "e \<notin> set (sys_entities (syss h s)) \<and> matches h s e")
    case True
    then show ?thesis
      by (simp add: fst_addComponentToEntity_loop_Cons snd_addComponentToEntity_loop_Cons
          Cons.IH push_simps inits_of_def)
  next
    case False
    then show ?thesis
      by (auto simp: fst_addComponentToEntity_loop_Cons snd_addComponentToEntity_loop_Cons
          Cons.IH inits_of_def)
  qed
qed

lemma seen_addComponentToEntity_loop:
  "ev \<in> set (snd (addComponentToEntity_loop e ss h)) \<Longrightarrow>
     same_frame h (ev_seen ev) \<and> ev_ent ev = e \<and> ev_sys ev \<in> set ss \<and>
     (ev_name ev = ''test'' \<and> e \<notin> set (sys_entities (syss (ev_seen ev) (ev_sys ev))) \<or>
      ev_name ev = ''init'' \<and> e \<notin> set (sys_entities (syss h (ev_sys ev))) \<and> matches h (ev_sys ev) e)"
proof (induction ss arbitrary: h)
  case Nil
  then show ?case by simp
next
  case (Cons s ss)
  show ?case
  proof (cases "e \<notin> set (sys_entities (syss h s)) \<and> matches h s e")
    case True
    let ?h = "push_system e s (push_entity s e h)"
    from Cons.prems True
    consider "ev = Call s ''test'' e Undefined h" | "ev = Call s ''init'' e Undefined ?h"
      | "ev \<in> set (snd (addComponentToEntity_loop e ss ?h))"
      unfolding snd_addComponentToEntity_loop_Cons by auto
    then show ?thesis
    proof cases
      case 1
      with True show ?thesis by (simp add: same_frame_refl)
    next
      case 2
      with True show ?thesis by (simp add: same_frame_link2)
    next
      case 3
      note ih = Cons.IH [OF 3]
      from ih have "same_frame h (ev_seen ev)"
        using same_frame_trans [OF same_frame_link2] by blast
      moreover from ih have "ev_name ev = ''init'' \<longrightarrow>
          e \<notin> set (sys_entities (syss h (ev_sys ev))) \<and> matches h (ev_sys ev) e"
        by (auto simp: push_simps split: if_splits)
      ultimately show ?thesis using ih by auto
    qed
  next
    case False
    from Cons.prems False
    consider "ev = Call s ''test'' e Undefined h \<and> e \<notin> set (sys_entities (syss h s))"
      | "ev \<in> set (snd (addComponentToEntity_loop e ss h))"
      unfolding snd_addComponentToEntity_loop_Cons by (auto split: if_splits)
    then show ?thesis
    proof cases
      case 1
      then show ?thesis by (simp add: same_frame_refl)
    next
      case 2
      from Cons.IH [OF 2] show ?thesis by auto
    qed
  qed
qed

lemma tests_of_addComponentToEntity_loop:
  "set (tests_of (snd (addComponentToEntity_loop e ss h))) =
     {s \<in> set ss. e \<notin> set (sys_entities (syss h s))}"
proof (induction ss arbitrary: h)
  case Nil
  show ?case by (simp add: tests_of_def)
next
  case (Cons s ss)
  show ?case
  proof (cases "e \<notin> set (sys_entities (syss h s)) \<and> matches h s e")
    case True
    let ?h = "push_system e s (push_entity s e h)"
    have i: "tests_of (snd (addComponentToEntity_loop e (s # ss) h)) =
               s # tests_of (snd (addComponentToEntity_loop e ss ?h))"
      using True by (simp add: snd_addComponentToEntity_loop_Cons tests_of_def)
    have f: "{t \<in> set ss. e \<notin> set (sys_entities (syss ?h t))} =
             {t \<in> set ss. t \<noteq> s \<and> e \<notin> set (sys_entities (syss h t))}"
      by (auto simp: push_simps)
    from Cons.IH [of ?h] True show ?thesis
      unfolding i f by auto
  next
    case False
    have i: "tests_of (snd (addComponentToEntity_loop e (s # ss) h)) =
               (if e \<notin> set (sys_entities (syss h s)) then [s] else [])
                 @ tests_of (snd (addComponentToEntity_loop e ss h))"
      using False by (auto simp: snd_addComponentToEntity_loop_Cons tests_of_def)
    from Cons.IH [of h] False show ?thesis
      unfolding i by auto
  qed
qed

subsection \<open>The operations of the scene in terms of their loops\<close>

lemma count_list_distinct: "distinct xs \<Longrightarrow> count_list xs x = (if x \<in> set xs then 1 else 0)"
  by (induction xs) auto

lemma events_of_addEntity:
  "events_of (addEntity h e ident) =
     snd (addEntity_loop e (scene_systems h)
       (h\<lparr>scene_count := (case ident of None \<Rightarrow> scene_count h + 1 | Some i \<Rightarrow> scene_count h),
          ents := (ents h)(e := (ents h e)\<lparr>ent_id := (case ident of None \<Rightarrow> show_nat (scene_count h) | Some i \<Rightarrow> i)\<rparr>),
          scene_entities := AList.update (case ident of None \<Rightarrow> show_nat (scene_count h) | Some i \<Rightarrow> i) e (scene_entities h)\<rparr>))"
  by (cases ident) (simp_all add: events_of_def addEntity_def generateUID_def Let_def split_beta)

lemma events_of_addSystem:
  "events_of (addSystem h s) =
     snd (addSystem_loop s (for_in (scene_entities h))
       (h\<lparr>scene_systems := scene_systems h @ [s],
          syss := (syss h)(s := (syss h s)\<lparr>sys_scene := Some This_scene\<rparr>)\<rparr>))"
  by (simp add: events_of_def addSystem_def Let_def split_beta)

lemma events_of_addComponentToEntity:
  "events_of (addComponentToEntity h e c) =
     snd (addComponentToEntity_loop e (scene_systems h) (h\<lparr>ents := (ents h)(e := entity_add (ents h e) c)\<rparr>))"
  by (simp add: events_of_def addComponentToEntity_def Let_def split_beta)

lemma result_of_addEntity: "result_of (addEntity h e ident) = e"
  by (simp add: result_of_def addEntity_def Let_def split_beta)

lemma ent_systems_new_Entity: "ent_systems (new_Entity cs) = []"
proof -
  have "ent_systems (foldl entity_add e cs) = ent_systems e" for e
    by (induction cs arbitrary: e) (simp_all add: entity_add_def)
  then show ?thesis by (simp add: new_Entity_def)
qed

lemma symmetric_addEntity_loop:
  "symmetric_membership h \<Longrightarrow> symmetric_membership (fst (addEntity_loop e ss h))"
  by (auto simp: symmetric_membership_def ents_addEntity_loop syss_addEntity_loop
      count_list_0_iff set_replicate_conv_if)

lemma symmetric_addSystem_loop:
  "symmetric_membership h \<Longrightarrow> symmetric_membership (fst (addSystem_loop s kvs h))"
  by (auto simp: symmetric_membership_def ents_addSystem_loop syss_addSystem_loop
      count_list_0_iff set_replicate_conv_if)

lemma symmetric_addComponentToEntity_loop:
  "symmetric_membership h \<Longrightarrow> symmetric_membership (fst (addComponentToEntity_loop e ss h))"
  using inits_of_addComponentToEntity_loop [of e ss h]
  by (auto simp: symmetric_membership_def ents_addComponentToEntity_loop syss_addComponentToEntity_loop)

subsection \<open>Predicate consistency, operation by operation\<close>

lemma entity_in_scene_iff: "entity_in_scene h e \<longleftrightarrow> (\<exists>k. getEntity h k = Some e)"
proof
  assume "entity_in_scene h e"
  then show "\<exists>k. getEntity h k = Some e"
    by (auto simp: entity_in_scene_def)
next
  assume "\<exists>k. getEntity h k = Some e"
  then obtain k where k: "map_of (scene_entities h) k = Some e"
    by (auto simp: getEntity_def)
  then have "(k, e) \<in> set (scene_entities h)" by (rule map_of_SomeD)
  then have "k \<in> set (map fst (scene_entities h))" by force
  with k show "entity_in_scene h e"
    by (auto simp: entity_in_scene_def getEntity_def)
qed

lemma entity_in_scene_values:
  "distinct (map fst (scene_entities h)) \<Longrightarrow> entity_in_scene h e \<longleftrightarrow> e \<in> snd ` set (scene_entities h)"
  unfolding entity_in_scene_iff getEntity_def
  by force

lemma addSystem_facts:
  "matches (heap_of (addSystem h s)) = matches h"
  "scene_entities (heap_of (addSystem h s)) = scene_entities h"
  "scene_systems (heap_of (addSystem h s)) = scene_systems h @ [s]"
  "sys_entities (syss (heap_of (addSystem h s)) t) =
     sys_entities (syss h t) @
       (if t = s then filter (\<lambda>x. matches h s x) (map snd (for_in (scene_entities h))) else [])"
proof -
  define h0 where "h0 = h\<lparr>scene_systems := scene_systems h @ [s],
          syss := (syss h)(s := (syss h s)\<lparr>sys_scene := Some This_scene\<rparr>)\<rparr>"
  have hp: "heap_of (addSystem h s) = fst (addSystem_loop s (for_in (scene_entities h)) h0)"
    by (simp add: heap_of_addSystem h0_def)
  have fr: "same_frame h0 (heap_of (addSystem h s))"
    unfolding hp by (rule addSystem_loop_frame)
  have m0: "matches h0 = matches h"
    by (intro ext) (simp add: matches_def h0_def)
  show "matches (heap_of (addSystem h s)) = matches h"
    using matches_same_frame [OF fr] m0 by (intro ext) simp
  show "scene_entities (heap_of (addSystem h s)) = scene_entities h"
    and "scene_systems (heap_of (addSystem h s)) = scene_systems h @ [s]"
    using fr by (simp_all add: same_frame_def h0_def)
  show "sys_entities (syss (heap_of (addSystem h s)) t) =
     sys_entities (syss h t) @
       (if t = s then filter (\<lambda>x. matches h s x) (map snd (for_in (scene_entities h))) else [])"
    unfolding hp syss_addSystem_loop m0 by (simp add: h0_def)
qed

lemma entity_in_scene_cong:
  "scene_entities h' = scene_entities h \<Longrightarrow> entity_in_scene h' = entity_in_scene h"
  by (intro ext) (simp add: entity_in_scene_def getEntity_def)

lemma consistent_addSystem:
  assumes c: "consistent h" and d: "distinct (map fst (scene_entities h))"
  shows "consistent (heap_of (addSystem h s))"
proof -
  have v: "x \<in> snd ` set (scene_entities h) \<longleftrightarrow> entity_in_scene h x" for x
    using entity_in_scene_values [OF d] by simp
  have i: "entity_in_scene (heap_of (addSystem h s)) = entity_in_scene h"
    by (rule entity_in_scene_cong) (rule addSystem_facts)
  show ?thesis
    unfolding consistent_def addSystem_facts i system_in_scene_def
    using c by (auto simp: consistent_def system_in_scene_def set_for_in v)
qed

lemma addEntity_facts:
  fixes h e ident
  defines "i \<equiv> (case ident of None \<Rightarrow> show_nat (scene_count h) | Some j \<Rightarrow> j)"
  shows "matches (heap_of (addEntity h e ident)) =
           (\<lambda>t x. sys_test (syss h t) (if x = e then i else ent_id (ents h x)) (ent_components (ents h x)))"
    and "scene_entities (heap_of (addEntity h e ident)) = AList.update i e (scene_entities h)"
    and "scene_systems (heap_of (addEntity h e ident)) = scene_systems h"
    and "sys_entities (syss (heap_of (addEntity h e ident)) t) =
           sys_entities (syss h t) @
             replicate (count_list (filter (\<lambda>s. sys_test (syss h s) i (ent_components (ents h e)))
                                      (scene_systems h)) t) e"
proof -
  define h0 where "h0 = h\<lparr>scene_count := (case ident of None \<Rightarrow> scene_count h + 1 | Some i \<Rightarrow> scene_count h),
          ents := (ents h)(e := (ents h e)\<lparr>ent_id := i\<rparr>),
          scene_entities := AList.update i e (scene_entities h)\<rparr>"
  have hp: "heap_of (addEntity h e ident) = fst (addEntity_loop e (scene_systems h) h0)"
    by (simp add: heap_of_addEntity h0_def i_def)
  have fr: "same_frame h0 (heap_of (addEntity h e ident))"
    unfolding hp by (rule addEntity_loop_frame)
  have m0: "matches h0 =
      (\<lambda>t x. sys_test (syss h t) (if x = e then i else ent_id (ents h x)) (ent_components (ents h x)))"
    by (intro ext) (simp add: matches_def h0_def)
  show "matches (heap_of (addEntity h e ident)) =
           (\<lambda>t x. sys_test (syss h t) (if x = e then i else ent_id (ents h x)) (ent_components (ents h x)))"
    using matches_same_frame [OF fr] unfolding m0 by (intro ext) simp
  show "scene_entities (heap_of (addEntity h e ident)) = AList.update i e (scene_entities h)"
    and "scene_systems (heap_of (addEntity h e ident)) = scene_systems h"
    using fr by (simp_all add: same_frame_def h0_def)
  show "sys_entities (syss (heap_of (addEntity h e ident)) t) =
           sys_entities (syss h t) @
             replicate (count_list (filter (\<lambda>s. sys_test (syss h s) i (ent_components (ents h e)))
                                      (scene_systems h)) t) e"
    unfolding hp syss_addEntity_loop m0 by (simp add: h0_def)
qed

lemma entity_in_scene_update:
  assumes "i \<notin> fst ` set kvs" and "scene_entities h' = AList.update i e kvs" and "scene_entities h = kvs"
  shows "entity_in_scene h' x \<longleftrightarrow> x = e \<or> entity_in_scene h x"
proof -
  from assms(1) have n: "map_of kvs i = None"
    by (simp add: map_of_eq_None_iff)
  show ?thesis
    unfolding entity_in_scene_iff getEntity_def assms(2,3) update_conv'
    using n by (auto split: if_splits) (metis option.distinct(1))+
qed

lemma consistent_addEntity:
  assumes c: "consistent h" and n: "\<not> entity_in_scene h e"
    and f: "(case ident of None \<Rightarrow> show_nat (scene_count h) | Some j \<Rightarrow> j) \<notin> fst ` set (scene_entities h)"
  shows "consistent (heap_of (addEntity h e ident))"
proof -
  have i: "entity_in_scene (heap_of (addEntity h e ident)) x \<longleftrightarrow> x = e \<or> entity_in_scene h x" for x
    by (rule entity_in_scene_update [OF f addEntity_facts(2) refl])
  from c n have o: "e \<notin> set (sys_entities (syss h t))" for t
    by (auto simp: consistent_def)
  show ?thesis
    unfolding consistent_def addEntity_facts i system_in_scene_def
    using c o n
    by (auto simp: consistent_def system_in_scene_def matches_def set_replicate_conv_if count_list_0_iff)
qed

lemma addComponentToEntity_facts:
  fixes h e c
  defines "h1 \<equiv> h\<lparr>ents := (ents h)(e := entity_add (ents h e) c)\<rparr>"
  shows "matches (heap_of (addComponentToEntity h e c)) = matches h1"
    and "scene_entities (heap_of (addComponentToEntity h e c)) = scene_entities h"
    and "scene_systems (heap_of (addComponentToEntity h e c)) = scene_systems h"
    and "sys_entities (syss (heap_of (addComponentToEntity h e c)) t) =
           sys_entities (syss h t) @
             (if t \<in> set (scene_systems h) \<and> e \<notin> set (sys_entities (syss h t)) \<and> matches h1 t e
              then [e] else [])"
proof -
  have hp: "heap_of (addComponentToEntity h e c) = fst (addComponentToEntity_loop e (scene_systems h) h1)"
    by (simp add: heap_of_addComponentToEntity h1_def)
  have fr: "same_frame h1 (heap_of (addComponentToEntity h e c))"
    unfolding hp by (rule addComponentToEntity_loop_frame)
  show "matches (heap_of (addComponentToEntity h e c)) = matches h1"
    using matches_same_frame [OF fr] by (intro ext) simp
  show "scene_entities (heap_of (addComponentToEntity h e c)) = scene_entities h"
    and "scene_systems (heap_of (addComponentToEntity h e c)) = scene_systems h"
    using fr by (simp_all add: same_frame_def h1_def)
  have k: "syss h1 = syss h" by (simp add: h1_def)
  show "sys_entities (syss (heap_of (addComponentToEntity h e c)) t) =
           sys_entities (syss h t) @
             (if t \<in> set (scene_systems h) \<and> e \<notin> set (sys_entities (syss h t)) \<and> matches h1 t e
              then [e] else [])"
    unfolding hp syss_addComponentToEntity_loop k by simp
qed

lemma membership_addComponentToEntity:
  assumes c: "consistent h" and n: "entity_in_scene h e"
  shows "x \<in> set (sys_entities (syss (heap_of (addComponentToEntity h e c)) s)) \<longleftrightarrow>
           (matches (heap_of (addComponentToEntity h e c)) s x \<or> x = e \<and> matches h s e) \<and>
           entity_in_scene (heap_of (addComponentToEntity h e c)) x \<and>
           system_in_scene (heap_of (addComponentToEntity h e c)) s"
proof -
  have i: "entity_in_scene (heap_of (addComponentToEntity h e c)) = entity_in_scene h"
    by (rule entity_in_scene_cong) (rule addComponentToEntity_facts)
  have m: "x \<noteq> e \<Longrightarrow> matches (h\<lparr>ents := (ents h)(e := entity_add (ents h e) c)\<rparr>) s x = matches h s x"
    by (simp add: matches_def)
  show ?thesis
    unfolding addComponentToEntity_facts i system_in_scene_def
    using c n m by (auto simp: consistent_def system_in_scene_def)
qed

lemma consistent_new_Scene:
  "consistent (new_Scene (\<lambda>x. new_Entity (cs x)) (\<lambda>s. new_System (t s) (f s)))"
  by (simp add: consistent_def new_Scene_def new_System_def entity_in_scene_def)

lemma distinct_keys_addEntity:
  "distinct (map fst (scene_entities h)) \<Longrightarrow> distinct (map fst (scene_entities (heap_of (addEntity h e ident))))"
  by (simp add: addEntity_facts distinct_update)

lemma consistent_ex_scene: "consistent ex_scene"
  by (simp add: consistent_def ex_scene_def new_Scene_def ex_systems_def new_System_def entity_in_scene_def)

lemma consistent_ex_scene1: "consistent ex_scene1"
proof -
  have d: "distinct (map fst (scene_entities ex_scene))"
    by (simp add: ex_scene_def new_Scene_def)
  have a: "consistent (heap_of (addSystem ex_scene 0))"
    by (rule consistent_addSystem [OF consistent_ex_scene d])
  have "distinct (map fst (scene_entities (heap_of (addSystem ex_scene 0))))"
    by (simp add: addSystem_facts d)
  with a show ?thesis
    unfolding ex_scene1_def by (rule consistent_addSystem)
qed

subsection \<open>The further example stores\<close>

lemma addEntity_loop_init_plain:
  "addEntity_loop_init (\<lambda>s e h. h) e ss h = fst (addEntity_loop e ss h)"
  by (induction ss arbitrary: h) (simp_all add: fst_addEntity_loop_Cons)

lemma addEntity_init_plain:
  "addEntity_init (\<lambda>s e h. h) h e ident = heap_of (addEntity h e ident)"
  by (simp add: addEntity_init_def addEntity_def heap_of_def Let_def split_beta addEntity_loop_init_plain)

lemma consistent_ex_scene_b: "consistent ex_scene_b"
  by (simp add: consistent_def ex_scene_b_def new_Scene_def ex_systems_b_def new_System_def entity_in_scene_def)

lemmas ex_eval_b = ex_eval ex_systems_b_def ex_scene_b_def entity_in_scene_def system_in_scene_def
  addEntity_init_def ex_init_adds_def

section \<open>Entity.set\<close>

text \<open>
  Claim C9, as amended. \<open>set(componentType, fields)\<close> throws (a \<open>TypeError\<close>, from
  writing a field of \<open>undefined\<close>) if and only if the entity does not hold a component of
  that name and the field mapping has at least one key: with no key the loop body never
  runs. When the entity holds the component, the call succeeds and the held instance has,
  for every key of the mapping, the mapping's value, and its other fields as before; the
  id, the membership array and the other components of the entity are unchanged.
\<close>

theorem entity_set_spec:
  "(entity_set e c data = Inl TypeError \<longleftrightarrow> entity_get e c = None \<and> data \<noteq> []) \<and>
   (\<forall>inst. entity_get e c = Some inst \<and> distinct (map fst data) \<longrightarrow>
      (\<exists>e' inst'. entity_set e c data = Inr e' \<and> entity_get e' c = Some inst' \<and>
          map_of inst' = map_of inst ++ map_of data \<and>
          ent_id e' = ent_id e \<and> ent_systems e' = ent_systems e \<and>
          (\<forall>n. n \<noteq> comp_name c \<longrightarrow> map_of (ent_components e') n = map_of (ent_components e) n)))"
proof (intro conjI allI impI)
  show "entity_set e c data = Inl TypeError \<longleftrightarrow> entity_get e c = None \<and> data \<noteq> []"
  proof (cases "entity_get e c")
    case None
    show ?thesis
    proof (cases "data = []")
      case True
      then show ?thesis by (simp add: entity_set_def for_in_def)
    next
      case False
      then have "for_in data \<noteq> []" by (simp add: for_in_Nil_iff)
      with None False show ?thesis by (simp add: entity_set_def entity_set_loop_missing)
    qed
  next
    case (Some inst)
    then show ?thesis
      by (simp add: entity_set_def entity_set_loop_held)
  qed
next
  fix inst
  assume a: "entity_get e c = Some inst \<and> distinct (map fst data)"
  let ?inst = "foldl (\<lambda>i kv. AList.update (fst kv) (snd kv) i) inst (for_in data)"
  let ?e = "if for_in data = [] then e
            else e\<lparr>ent_components := AList.update (comp_name c) ?inst (ent_components e)\<rparr>"
  have 1: "entity_set e c data = Inr ?e"
    using a by (simp add: entity_set_def entity_set_loop_held)
  have 2: "entity_get ?e c = Some ?inst"
    using a by (simp add: entity_get_def update_conv')
  have 3: "map_of ?inst = map_of inst ++ map_of data"
    using a by (simp add: map_of_update_fields map_of_rev_for_in)
  have 4: "ent_id ?e = ent_id e \<and> ent_systems ?e = ent_systems e" by simp
  have 5: "\<forall>n. n \<noteq> comp_name c \<longrightarrow> map_of (ent_components ?e) n = map_of (ent_components e) n"
    by (simp add: update_conv')
  show "\<exists>e' inst'. entity_set e c data = Inr e' \<and> entity_get e' c = Some inst' \<and>
          map_of inst' = map_of inst ++ map_of data \<and>
          ent_id e' = ent_id e \<and> ent_systems e' = ent_systems e \<and>
          (\<forall>n. n \<noteq> comp_name c \<longrightarrow> map_of (ent_components e') n = map_of (ent_components e) n)"
    using 1 2 3 4 5 by blast
qed

theorem entity_set_spec_witness:
  "entity_get (new_Entity [Position]) Position = Some [(''x'', Num 0), (''y'', Num 0)] \<and>
   distinct (map fst [(''y'', Num 4)]) \<and>
   (\<exists>e' inst'. entity_set (new_Entity [Position]) Position [(''y'', Num 4)] = Inr e' \<and>
       entity_get e' Position = Some inst' \<and> map_of inst' ''x'' = Some (Num 0) \<and> map_of inst' ''y'' = Some (Num 4)) \<and>
   entity_set (new_Entity []) Position [(''y'', Num 4)] = Inl TypeError"
proof -
  have g: "entity_get (new_Entity [Position]) Position = Some [(''x'', Num 0), (''y'', Num 0)]"
    by (simp add: entity_get_def new_Entity_def entity_add_def Position_def)
  have n: "entity_get (new_Entity []) Position = None"
    by (simp add: entity_get_def new_Entity_def)
  have d: "distinct (map fst [(''y'', Num 4)])" by simp
  from entity_set_spec [of "new_Entity [Position]" Position "[(''y'', Num 4)]"] g d
  obtain e' inst' where
    "entity_set (new_Entity [Position]) Position [(''y'', Num 4)] = Inr e'"
    "entity_get e' Position = Some inst'"
    "map_of inst' = map_of [(''x'', Num 0), (''y'', Num 0)] ++ map_of [(''y'', Num 4)]"
    by blast
  moreover from this have "map_of inst' ''x'' = Some (Num 0) \<and> map_of inst' ''y'' = Some (Num 4)"
    by simp
  moreover have "entity_set (new_Entity []) Position [(''y'', Num 4)] = Inl TypeError"
    using entity_set_spec [of "new_Entity []" Position "[(''y'', Num 4)]"] n by simp
  ultimately show ?thesis using g d by blast
qed

text \<open>
  The claim as first stated, that \<open>set\<close> throws exactly when the component is missing,
  fails for an empty field mapping: the entity below holds no \<open>Position\<close>, and
  \<open>set(Position, {})\<close> returns normally and leaves it as it was.
\<close>

theorem entity_set_throws_iff_missing_counterexample:
  "entity_get (new_Entity []) Position = None \<and>
   entity_set (new_Entity []) Position [] = Inr (new_Entity [])"
  by (simp add: entity_get_def new_Entity_def entity_set_def for_in_def)

section \<open>Entity.dispatch\<close>

text \<open>
  Claim C6. \<open>entity.dispatch(hookName, param)\<close> calls, for each system of the entity's
  membership array that defines a callable member of that name, that member with the
  entity and the parameter, in the order of the membership array, that is the order in
  which the systems started to match the entity; it returns nothing and writes nothing.
  In the example the scene holds systems 0 and 1 in this order, entity 0 was matched by
  system 1 first and by system 0 later, and \<open>foo\<close> is called on system 1 first.
\<close>

theorem entity_dispatch_spec:
  "entity_dispatch h e f p =
     ((), h, map (\<lambda>s. Call s f e p h) (filter (\<lambda>s. sys_callable (syss h s) f) (ent_systems (ents h e)))) \<and>
   scene_systems ex_scene3 = [0, 1] \<and> ent_systems (ents ex_scene3 0) = [1, 0] \<and>
   map signature (events_of (entity_dispatch ex_scene3 0 ''foo'' (Num 7))) =
     [(1, ''foo'', 0, Num 7), (0, ''foo'', 0, Num 7)]"
proof -
  have g: "entity_dispatch h e f p =
     ((), h, map (\<lambda>s. Call s f e p h) (filter (\<lambda>s. sys_callable (syss h s) f) (ent_systems (ents h e))))" for h e f p
    by (simp add: entity_dispatch_def entity_dispatch_loop_filter)
  have s: "scene_systems ex_scene3 = [0, 1]"
    by (simp add: ex_scene3_def ex_scene2_def ex_scene1_def ex_eval)
  have m: "ent_systems (ents ex_scene3 0) = [1, 0]"
    by (simp add: ex_scene3_def ex_scene2_def ex_scene1_def ex_eval)
  have c: "sys_callable (syss ex_scene3 0) ''foo'' \<and> sys_callable (syss ex_scene3 1) ''foo''"
    by (simp add: ex_scene3_def ex_scene2_def ex_scene1_def ex_eval)
  have d: "map signature (events_of (entity_dispatch ex_scene3 0 ''foo'' (Num 7))) =
     [(1, ''foo'', 0, Num 7), (0, ''foo'', 0, Num 7)]"
    unfolding g events_of_def m using c by (simp add: signature_def)
  show ?thesis
    using g s m d by blast
qed

section \<open>Scene.generateUID\<close>

text \<open>
  Claim C7. The id generator returns the counter as a decimal string (the decimal value
  of the string is the counter) and then adds one to the counter; on a new scene three
  calls in a row give "0", "1", "2"; no operation of the scene makes the counter smaller;
  and the generator gives different ids at different values of the counter, so an id it
  has given is not given again later.
\<close>

theorem generateUID_counter:
  "fst (generateUID h) = show_nat (scene_count h) \<and>
   dec_value (show_nat (scene_count h)) = scene_count h \<and>
   scene_count (snd (generateUID h)) = scene_count h + 1 \<and>
   (let h0 = new_Scene es ss; (a, h1) = generateUID h0; (b, h2) = generateUID h1; (c, h3) = generateUID h2
    in [a, b, c] = [''0'', ''1'', ''2'']) \<and>
   scene_count h \<le> scene_count (heap_of (addEntity h e ident)) \<and>
   scene_count h \<le> scene_count (heap_of (removeEntity h e)) \<and>
   scene_count h \<le> scene_count (heap_of (addSystem h s)) \<and>
   scene_count h \<le> scene_count (heap_of (addComponentToEntity h e c)) \<and>
   scene_count h \<le> scene_count (heap_of (scene_dispatch h f p)) \<and>
   scene_count h \<le> scene_count (heap_of (query h cs)) \<and>
   (scene_count h < scene_count h' \<longrightarrow> fst (generateUID h) \<noteq> fst (generateUID h'))"
proof -
  have three: "(let h0 = new_Scene es ss; (a, h1) = generateUID h0; (b, h2) = generateUID h1; (c, h3) = generateUID h2
    in [a, b, c] = [''0'', ''1'', ''2''])"
    by (simp add: generateUID_def new_Scene_def show_nat.simps digit_char_def)
  have add: "scene_count h \<le> scene_count (heap_of (addEntity h e ident))"
    by (cases ident) (simp_all add: scene_count_addEntity)
  have fresh: "scene_count h < scene_count h' \<longrightarrow> fst (generateUID h) \<noteq> fst (generateUID h')"
    by (auto simp: generateUID_def dest: show_nat_inj)
  show ?thesis
    using three add fresh
    by (simp add: generateUID_def dec_value_show_nat heap_of_removeEntity scene_count_addSystem
        scene_count_addComponentToEntity)
       (simp add: heap_of_def scene_dispatch_def query_def)
qed

theorem generateUID_counter_witness:
  "scene_count ex_scene < scene_count (snd (generateUID ex_scene)) \<and>
   fst (generateUID ex_scene) \<noteq> fst (generateUID (snd (generateUID ex_scene)))"
  using generateUID_counter [of ex_scene "\<lambda>e. new_Entity []" ex_systems 0 None 0 Position "''foo''" Undefined "[]"
      "snd (generateUID ex_scene)"]
  by (simp add: generateUID_def)

section \<open>Scene.query\<close>

text \<open>
  Claim C8. \<open>query(...componentTypes)\<close> returns, in the enumeration order of the
  entities mapping, exactly the entities for which \<open>has(...componentTypes)\<close> holds; it
  leaves the store as it is and calls no method of a system; asked again on the store it
  leaves, it returns the same sequence; \<open>has()\<close> without arguments is true of any entity,
  and \<open>query()\<close> without arguments returns every entity of the scene.
\<close>

theorem query_spec:
  "result_of (query h cs) = filter (\<lambda>e. entity_has (ents h e) cs) (map snd (for_in (scene_entities h))) \<and>
   heap_of (query h cs) = h \<and> events_of (query h cs) = [] \<and>
   result_of (query (heap_of (query h cs)) cs) = result_of (query h cs) \<and>
   entity_has x [] \<and>
   result_of (query h []) = map snd (for_in (scene_entities h)) \<and>
   (\<forall>k e. getEntity h k = Some e \<longrightarrow> e \<in> set (result_of (query h []))) \<and>
   (distinct (map fst (scene_entities h)) \<longrightarrow> set (result_of (query h [])) = {e. entity_in_scene h e})"
proof -
  have r: "result_of (query h cs) = filter (\<lambda>e. entity_has (ents h e) cs) (map snd (for_in (scene_entities h)))" for cs
    by (simp add: result_of_def query_def query_loop_filter)
  have all: "result_of (query h []) = map snd (for_in (scene_entities h))"
    by (simp add: r)
  have a: "\<forall>k e. getEntity h k = Some e \<longrightarrow> e \<in> set (result_of (query h []))"
    by (force simp: all set_for_in getEntity_def dest: map_of_SomeD)
  have b: "distinct (map fst (scene_entities h)) \<longrightarrow> set (result_of (query h [])) = {e. entity_in_scene h e}"
    by (force simp: all set_for_in getEntity_def entity_in_scene_def dest: map_of_SomeD)
  show ?thesis
    using r all a b by (simp add: heap_of_def events_of_def query_def)
qed

theorem query_spec_witness:
  "getEntity ex_scene3 ''0'' = Some 0 \<and> 0 \<in> set (result_of (query ex_scene3 [])) \<and>
   distinct (map fst (scene_entities ex_scene3)) \<and>
   set (result_of (query ex_scene3 [])) = {e. entity_in_scene ex_scene3 e} \<and>
   result_of (query ex_scene3 [Position]) = [0] \<and> result_of (query ex_scene3 [Velocity]) = []"
proof -
  have k: "scene_entities ex_scene3 = [(''0'', 0)]"
    by (simp add: ex_scene3_def ex_scene2_def ex_scene1_def ex_eval)
  have c: "ent_components (ents ex_scene3 0) = [(''Position'', [(''x'', Num 0), (''y'', Num 0)])]"
    by (simp add: ex_scene3_def ex_scene2_def ex_scene1_def ex_eval)
  have g: "getEntity ex_scene3 ''0'' = Some 0"
    by (simp add: getEntity_def k)
  have d: "distinct (map fst (scene_entities ex_scene3))"
    by (simp add: k)
  have f: "for_in [(''0'', 0::nat)] = [(''0'', 0)]"
    by (simp add: for_in_def is_array_index_def is_digit_def dec_value_def digit_val_def)
  note q = query_spec [of ex_scene3 "[]"]
  from q g have 1: "0 \<in> set (result_of (query ex_scene3 []))" by blast
  from q d have 2: "set (result_of (query ex_scene3 [])) = {e. entity_in_scene ex_scene3 e}" by blast
  have 3: "result_of (query ex_scene3 [Position]) = [0]"
    using query_spec [of ex_scene3 "[Position]"] by (simp add: k c f Position_def)
  have 4: "result_of (query ex_scene3 [Velocity]) = []"
    using query_spec [of ex_scene3 "[Velocity]"] by (simp add: k c f Velocity_def)
  show ?thesis using g d 1 2 3 4 by blast
qed

section \<open>Membership symmetry\<close>

text \<open>
  Claim C1. An entity is in \<open>system.entities\<close> if and only if the system is in
  \<open>entity._systems\<close>, for every entity and every system of the store (in the scene or
  not). This holds for a new scene with newly constructed entities and systems, and each of
  \<open>addEntity\<close>, \<open>addSystem\<close>, \<open>addComponentToEntity\<close> and \<open>removeEntity\<close> leaves a
  store in which it holds if it was called on one.
\<close>

theorem membership_symmetry:
  "symmetric_membership (new_Scene (\<lambda>x. new_Entity (cs x)) (\<lambda>s. new_System (t s) (f s))) \<and>
   (symmetric_membership h \<longrightarrow>
      symmetric_membership (heap_of (addEntity h e ident)) \<and>
      symmetric_membership (heap_of (addSystem h s)) \<and>
      symmetric_membership (heap_of (addComponentToEntity h e c)) \<and>
      symmetric_membership (heap_of (removeEntity h e)))"
proof (intro conjI impI)
  show "symmetric_membership (new_Scene (\<lambda>x. new_Entity (cs x)) (\<lambda>s. new_System (t s) (f s)))"
    by (simp add: symmetric_membership_def new_Scene_def new_System_def ent_systems_new_Entity)
next
  assume a: "symmetric_membership h"
  show "symmetric_membership (heap_of (addEntity h e ident))"
    unfolding heap_of_addEntity
    by (rule symmetric_addEntity_loop) (use a in \<open>simp add: symmetric_membership_def\<close>)
  show "symmetric_membership (heap_of (addSystem h s))"
    unfolding heap_of_addSystem
    by (rule symmetric_addSystem_loop) (use a in \<open>simp add: symmetric_membership_def\<close>)
  show "symmetric_membership (heap_of (addComponentToEntity h e c))"
    unfolding heap_of_addComponentToEntity
    by (rule symmetric_addComponentToEntity_loop)
       (use a in \<open>simp add: symmetric_membership_def entity_add_def\<close>)
  show "symmetric_membership (heap_of (removeEntity h e))"
    using a by (simp add: heap_of_removeEntity)
qed

theorem membership_symmetry_witness:
  "symmetric_membership ex_scene \<and> symmetric_membership ex_scene1 \<and>
   symmetric_membership ex_scene2 \<and> symmetric_membership ex_scene3 \<and>
   symmetric_membership (heap_of (removeEntity ex_scene3 0)) \<and>
   sys_entities (syss ex_scene3 0) = [0] \<and> ent_systems (ents ex_scene3 0) = [1, 0]"
proof -
  have 0: "symmetric_membership ex_scene"
    by (simp add: symmetric_membership_def ex_scene_def new_Scene_def new_Entity_def
        ex_systems_def new_System_def)
  from membership_symmetry [where h = ex_scene and s = 0] 0
  have a: "symmetric_membership (heap_of (addSystem ex_scene 0))" by blast
  from membership_symmetry [where h = "heap_of (addSystem ex_scene 0)" and s = 1] a
  have 1: "symmetric_membership ex_scene1" unfolding ex_scene1_def by blast
  from membership_symmetry [where h = ex_scene1 and e = 0 and ident = None] 1
  have 2: "symmetric_membership ex_scene2" unfolding ex_scene2_def by blast
  from membership_symmetry [where h = ex_scene2 and e = 0 and c = Position] 2
  have 3: "symmetric_membership ex_scene3" unfolding ex_scene3_def by blast
  from membership_symmetry [where h = ex_scene3 and e = 0] 3
  have 4: "symmetric_membership (heap_of (removeEntity ex_scene3 0))" by blast
  have 5: "sys_entities (syss ex_scene3 0) = [0] \<and> ent_systems (ents ex_scene3 0) = [1, 0]"
    by (simp add: ex_scene3_def ex_scene2_def ex_scene1_def ex_eval)
  from 0 1 2 3 4 5 show ?thesis by blast
qed

section \<open>Scene.removeEntity\<close>

text \<open>
  Claim C2 does not hold of the code: \<open>removeEntity\<close> throws a \<open>TypeError\<close> on its first
  statement, for every scene and every entity, and writes nothing and calls nothing. For
  the entity of the example, matched by systems 1 and 0, no \<open>exit\<close> is called, the entity
  keeps its id, stays in the entities mapping and stays in both systems.
\<close>

theorem removeEntity_throws:
  "result_of (removeEntity h e) = Inl TypeError \<and> heap_of (removeEntity h e) = h \<and>
   events_of (removeEntity h e) = [] \<and>
   ent_systems (ents ex_scene3 0) = [1, 0] \<and> getEntity ex_scene3 ''0'' = Some 0 \<and>
   result_of (removeEntity ex_scene3 0) = Inl TypeError \<and>
   ent_id (ents (heap_of (removeEntity ex_scene3 0)) 0) = ''0'' \<and>
   getEntity (heap_of (removeEntity ex_scene3 0)) ''0'' = Some 0 \<and>
   sys_entities (syss (heap_of (removeEntity ex_scene3 0)) 0) = [0] \<and>
   sys_entities (syss (heap_of (removeEntity ex_scene3 0)) 1) = [0]"
proof -
  have g: "result_of (removeEntity h e) = Inl TypeError \<and> heap_of (removeEntity h e) = h \<and>
   events_of (removeEntity h e) = []" for h e
    by (simp add: result_of_def heap_of_def events_of_def removeEntity_def split: option.splits)
  have x: "ent_systems (ents ex_scene3 0) = [1, 0] \<and> getEntity ex_scene3 ''0'' = Some 0 \<and>
     ent_id (ents ex_scene3 0) = ''0'' \<and> sys_entities (syss ex_scene3 0) = [0] \<and>
     sys_entities (syss ex_scene3 1) = [0]"
    by (simp add: ex_scene3_def ex_scene2_def ex_scene1_def ex_eval)
  show ?thesis using g x by simp
qed

section \<open>Scene.addEntity\<close>

text \<open>
  Claim C4. \<open>addEntity(entity, id?)\<close> returns the entity; the id of the entity is the
  explicit id if one is given and the generated one otherwise; the entity is stored in
  the entities mapping under that id; for every system of the scene, in insertion order,
  \<open>test\<close> is called, and where it is true the system is appended to the entity's
  membership array, the entity to the system's array, and \<open>init\<close> is called: the calls of
  \<open>init\<close> are, in order, the matching systems, once for each place a system has in the
  scene's array, so exactly once when the scene holds no system twice. Nothing else
  changes.
\<close>

theorem addEntity_spec:
  "let i = (case ident of None \<Rightarrow> show_nat (scene_count h) | Some j \<Rightarrow> j);
       ms = filter (\<lambda>s. sys_test (syss h s) i (ent_components (ents h e))) (scene_systems h);
       r = addEntity h e ident; h' = heap_of r; evs = events_of r
   in result_of r = e \<and>
      ent_id (ents h' e) = i \<and> ent_components (ents h' e) = ent_components (ents h e) \<and>
      scene_entities h' = AList.update i e (scene_entities h) \<and> getEntity h' i = Some e \<and>
      scene_count h' = (case ident of None \<Rightarrow> scene_count h + 1 | Some j \<Rightarrow> scene_count h) \<and>
      scene_systems h' = scene_systems h \<and>
      ent_systems (ents h' e) = ent_systems (ents h e) @ ms \<and>
      (\<forall>x. x \<noteq> e \<longrightarrow> ents h' x = ents h x) \<and>
      (\<forall>s. syss h' s = (syss h s)\<lparr>sys_entities := sys_entities (syss h s) @ replicate (count_list ms s) e\<rparr>) \<and>
      map signature evs =
        concat (map (\<lambda>s. if sys_test (syss h s) i (ent_components (ents h e))
                          then [(s, ''test'', e, Undefined), (s, ''init'', e, Undefined)]
                          else [(s, ''test'', e, Undefined)]) (scene_systems h)) \<and>
      inits_of evs = ms \<and>
      (distinct (scene_systems h) \<longrightarrow>
         (\<forall>s \<in> set ms. count_list (inits_of evs) s = 1 \<and>
                       sys_entities (syss h' s) = sys_entities (syss h s) @ [e]))"
proof -
  define i where "i = (case ident of None \<Rightarrow> show_nat (scene_count h) | Some j \<Rightarrow> j)"
  define n where "n = (case ident of None \<Rightarrow> scene_count h + 1 | Some j \<Rightarrow> scene_count h)"
  define h0 where "h0 = h\<lparr>scene_count := n, ents := (ents h)(e := (ents h e)\<lparr>ent_id := i\<rparr>),
                          scene_entities := AList.update i e (scene_entities h)\<rparr>"
  define ms where "ms = filter (\<lambda>s. sys_test (syss h s) i (ent_components (ents h e))) (scene_systems h)"
  define h' where "h' = heap_of (addEntity h e ident)"
  define evs where "evs = events_of (addEntity h e ident)"
  have hp: "h' = fst (addEntity_loop e (scene_systems h0) h0)"
    by (simp add: h'_def heap_of_addEntity h0_def i_def n_def)
  have ev: "evs = snd (addEntity_loop e (scene_systems h0) h0)"
    by (simp add: evs_def events_of_addEntity h0_def i_def n_def)
  have m: "matches h0 = (\<lambda>s x. sys_test (syss h s) (if x = e then i else ent_id (ents h x)) (ent_components (ents h x)))"
    by (intro ext) (simp add: matches_def h0_def)
  have ms0: "filter (\<lambda>s. matches h0 s e) (scene_systems h0) = ms"
    unfolding m ms_def by (simp add: h0_def)
  have fr: "same_frame h0 h'"
    unfolding hp by (rule addEntity_loop_frame)
  have 1: "ent_id (ents h' e) = i" and 2: "ent_components (ents h' e) = ent_components (ents h e)"
    and 3: "scene_entities h' = AList.update i e (scene_entities h)" and 4: "scene_count h' = n"
    and 5: "scene_systems h' = scene_systems h"
    using fr by (simp_all add: same_frame_def h0_def)
  have 6: "getEntity h' i = Some e"
    by (simp add: getEntity_def 3 update_conv')
  have 7: "ent_systems (ents h' e) = ent_systems (ents h e) @ ms"
    unfolding hp ents_addEntity_loop ms0 by (simp add: h0_def)
  have 8: "\<forall>x. x \<noteq> e \<longrightarrow> ents h' x = ents h x"
    unfolding hp ents_addEntity_loop by (simp add: h0_def)
  have 9: "\<forall>s. syss h' s = (syss h s)\<lparr>sys_entities := sys_entities (syss h s) @ replicate (count_list ms s) e\<rparr>"
    unfolding hp syss_addEntity_loop ms0 by (simp add: h0_def)
  have 10: "map signature evs =
        concat (map (\<lambda>s. if sys_test (syss h s) i (ent_components (ents h e))
                          then [(s, ''test'', e, Undefined), (s, ''init'', e, Undefined)]
                          else [(s, ''test'', e, Undefined)]) (scene_systems h))"
    unfolding ev signature_addEntity_loop by (simp add: m) (simp add: h0_def)
  have 11: "inits_of evs = ms"
    unfolding ev inits_of_addEntity_loop by (rule ms0)
  have 12: "distinct (scene_systems h) \<longrightarrow>
         (\<forall>s \<in> set ms. count_list (inits_of evs) s = 1 \<and>
                       sys_entities (syss h' s) = sys_entities (syss h s) @ [e])"
  proof (intro impI ballI)
    fix s assume d: "distinct (scene_systems h)" and s: "s \<in> set ms"
    from d have "distinct ms" by (simp add: ms_def)
    with s have c: "count_list ms s = 1" by (simp add: count_list_distinct)
    then show "count_list (inits_of evs) s = 1 \<and>
                sys_entities (syss h' s) = sys_entities (syss h s) @ [e]"
      by (simp add: 11 9)
  qed
  show ?thesis
    unfolding Let_def
    using result_of_addEntity [of h e ident] 1 2 3 4 5 6 7 8 9 10 11 12
    unfolding i_def [symmetric] ms_def [symmetric] h'_def [symmetric] evs_def [symmetric] n_def [symmetric]
    by blast
qed

theorem addEntity_spec_witness:
  "distinct (scene_systems ex_scene1) \<and>
   result_of (addEntity ex_scene1 0 None) = 0 \<and>
   ent_id (ents ex_scene2 0) = ''0'' \<and> getEntity ex_scene2 ''0'' = Some 0 \<and>
   ent_systems (ents ex_scene2 0) = [1] \<and>
   inits_of (events_of (addEntity ex_scene1 0 None)) = [1] \<and>
   count_list (inits_of (events_of (addEntity ex_scene1 0 None))) 1 = 1 \<and>
   sys_entities (syss ex_scene2 1) = [0] \<and> sys_entities (syss ex_scene2 0) = []"
proof -
  have s: "scene_systems ex_scene1 = [0, 1]" and c: "scene_count ex_scene1 = 0"
    and k: "ent_components (ents ex_scene1 0) = []" and m: "ent_systems (ents ex_scene1 0) = []"
    and t0: "\<not> sys_test (syss ex_scene1 0) ''0'' []" and t1: "sys_test (syss ex_scene1 1) ''0'' []"
    and e0: "sys_entities (syss ex_scene1 0) = []" and e1: "sys_entities (syss ex_scene1 1) = []"
    by (simp_all add: ex_scene1_def ex_eval)
  have n: "show_nat 0 = ''0''"
    by (simp add: show_nat.simps digit_char_def)
  have d: "distinct (scene_systems ex_scene1)" by (simp add: s)
  note x = addEntity_spec [where h = ex_scene1 and e = 0 and ident = None,
      unfolded Let_def, folded ex_scene2_def, simplified s c k m n, simplified]
  from x t0 t1 e0 e1 d show ?thesis by (simp add: s)
qed

section \<open>Scene.addComponentToEntity\<close>

text \<open>
  Claim C5. \<open>addComponentToEntity(entity, componentType)\<close> first adds the component to
  the entity: every call it makes sees the entity with the new component. It calls \<open>test\<close>
  only on systems of the scene whose array does not hold the entity at the moment of the
  call, and on each such system. The systems on which \<open>init\<close> is called are exactly the
  fresh matches (systems of the scene that did not hold the entity and whose \<open>test\<close> is
  true of it now), each once; they are appended to the entity's membership array and the
  entity is appended to their arrays. No array of a system loses an element. In Scenario 2
  the system that tests for \<open>Position\<close> stays empty, without a call of \<open>init\<close>, when it
  is added to a scene whose entity has no \<open>Position\<close>, and holds the entity, after one call
  of \<open>init\<close>, once \<open>Position\<close> is added this way.
\<close>

theorem addComponentToEntity_spec:
  "let h1 = h\<lparr>ents := (ents h)(e := entity_add (ents h e) c)\<rparr>;
       r = addComponentToEntity h e c; h' = heap_of r; evs = events_of r;
       fresh = {s \<in> set (scene_systems h). e \<notin> set (sys_entities (syss h s)) \<and> matches h1 s e}
   in ent_components (ents h' e) = AList.update (comp_name c) (comp_new c) (ent_components (ents h e)) \<and>
      ent_id (ents h' e) = ent_id (ents h e) \<and>
      (\<forall>ev \<in> set evs.
         ev_ent ev = e \<and> ev_name ev \<in> {''test'', ''init''} \<and>
         ent_components (ents (ev_seen ev) e) = ent_components (ents h' e) \<and>
         (ev_name ev = ''test'' \<longrightarrow> e \<notin> set (sys_entities (syss (ev_seen ev) (ev_sys ev))))) \<and>
      set (tests_of evs) = {s \<in> set (scene_systems h). e \<notin> set (sys_entities (syss h s))} \<and>
      set (inits_of evs) = fresh \<and> distinct (inits_of evs) \<and>
      ent_systems (ents h' e) = ent_systems (ents h e) @ inits_of evs \<and>
      (\<forall>s. syss h' s = (syss h s)\<lparr>sys_entities := sys_entities (syss h s) @ (if s \<in> fresh then [e] else [])\<rparr>) \<and>
      (\<forall>s. set (sys_entities (syss h s)) \<subseteq> set (sys_entities (syss h' s))) \<and>
      (\<forall>x. x \<noteq> e \<longrightarrow> ents h' x = ents h x) \<and>
      scene_entities h' = scene_entities h \<and> scene_systems h' = scene_systems h \<and>
      sys_entities (syss ex_scenario2b 0) = [] \<and> inits_of (events_of (addSystem ex_scenario2a 0)) = [] \<and>
      sys_entities (syss (heap_of (addComponentToEntity ex_scenario2b 0 Position)) 0) = [0] \<and>
      inits_of (events_of (addComponentToEntity ex_scenario2b 0 Position)) = [0]"
proof -
  define h1 where "h1 = h\<lparr>ents := (ents h)(e := entity_add (ents h e) c)\<rparr>"
  define h' where "h' = heap_of (addComponentToEntity h e c)"
  define evs where "evs = events_of (addComponentToEntity h e c)"
  define fresh where "fresh = {s \<in> set (scene_systems h). e \<notin> set (sys_entities (syss h s)) \<and> matches h1 s e}"
  have hp: "h' = fst (addComponentToEntity_loop e (scene_systems h1) h1)"
    by (simp add: h'_def heap_of_addComponentToEntity h1_def)
  have ev: "evs = snd (addComponentToEntity_loop e (scene_systems h1) h1)"
    by (simp add: evs_def events_of_addComponentToEntity h1_def)
  have fr: "same_frame h1 h'"
    unfolding hp by (rule addComponentToEntity_loop_frame)
  have f1: "{s \<in> set (scene_systems h1). e \<notin> set (sys_entities (syss h1 s)) \<and> matches h1 s e} = fresh"
    by (simp add: fresh_def h1_def)
  have 1: "ent_components (ents h' e) = AList.update (comp_name c) (comp_new c) (ent_components (ents h e))"
    and 2: "ent_id (ents h' e) = ent_id (ents h e)"
    and 11: "scene_entities h' = scene_entities h" and 12: "scene_systems h' = scene_systems h"
    using fr by (simp_all add: same_frame_def h1_def entity_add_def)
  have 3: "\<forall>ev \<in> set evs.
         ev_ent ev = e \<and> ev_name ev \<in> {''test'', ''init''} \<and>
         ent_components (ents (ev_seen ev) e) = ent_components (ents h' e) \<and>
         (ev_name ev = ''test'' \<longrightarrow> e \<notin> set (sys_entities (syss (ev_seen ev) (ev_sys ev))))"
  proof
    fix x assume "x \<in> set evs"
    then have a: "same_frame h1 (ev_seen x) \<and> ev_ent x = e \<and> ev_sys x \<in> set (scene_systems h1) \<and>
       (ev_name x = ''test'' \<and> e \<notin> set (sys_entities (syss (ev_seen x) (ev_sys x))) \<or>
        ev_name x = ''init'' \<and> e \<notin> set (sys_entities (syss h1 (ev_sys x))) \<and> matches h1 (ev_sys x) e)"
      unfolding ev by (rule seen_addComponentToEntity_loop)
    then have "ent_components (ents (ev_seen x) e) = ent_components (ents h1 e)"
      by (simp add: same_frame_def)
    moreover from fr have "ent_components (ents h' e) = ent_components (ents h1 e)"
      by (simp add: same_frame_def)
    ultimately show "ev_ent x = e \<and> ev_name x \<in> {''test'', ''init''} \<and>
         ent_components (ents (ev_seen x) e) = ent_components (ents h' e) \<and>
         (ev_name x = ''test'' \<longrightarrow> e \<notin> set (sys_entities (syss (ev_seen x) (ev_sys x))))"
      using a by auto
  qed
  have 4: "set (tests_of evs) = {s \<in> set (scene_systems h). e \<notin> set (sys_entities (syss h s))}"
    unfolding ev tests_of_addComponentToEntity_loop by (simp add: h1_def)
  have 5: "set (inits_of evs) = fresh" and 6: "distinct (inits_of evs)"
    using inits_of_addComponentToEntity_loop [of e "scene_systems h1" h1]
    unfolding ev [symmetric] f1 by simp_all
  have 7: "ent_systems (ents h' e) = ent_systems (ents h e) @ inits_of evs"
    unfolding hp ents_addComponentToEntity_loop ev by (simp add: h1_def entity_add_def)
  have 8: "\<forall>s. syss h' s = (syss h s)\<lparr>sys_entities := sys_entities (syss h s) @ (if s \<in> fresh then [e] else [])\<rparr>"
  proof
    fix s
    have m: "s \<in> fresh \<longleftrightarrow>
        s \<in> set (scene_systems h1) \<and> e \<notin> set (sys_entities (syss h1 s)) \<and> matches h1 s e"
      unfolding f1 [symmetric] by simp
    have k: "syss h1 s = syss h s" by (simp add: h1_def)
    show "syss h' s = (syss h s)\<lparr>sys_entities := sys_entities (syss h s) @ (if s \<in> fresh then [e] else [])\<rparr>"
      unfolding hp syss_addComponentToEntity_loop m k ..
  qed
  from 8 have 9: "\<forall>s. set (sys_entities (syss h s)) \<subseteq> set (sys_entities (syss h' s))"
    by auto
  have 10: "\<forall>x. x \<noteq> e \<longrightarrow> ents h' x = ents h x"
    unfolding hp ents_addComponentToEntity_loop by (simp add: h1_def)
  have s1: "sys_entities (syss ex_scenario2b 0) = []"
    and s2: "inits_of (events_of (addSystem ex_scenario2a 0)) = []"
    by (simp_all add: ex_scenario2b_def ex_scenario2a_def ex_eval inits_of_def)
  have s3: "sys_entities (syss (heap_of (addComponentToEntity ex_scenario2b 0 Position)) 0) = [0]"
    and s4: "inits_of (events_of (addComponentToEntity ex_scenario2b 0 Position)) = [0]"
    by (simp_all add: ex_scenario2b_def ex_scenario2a_def ex_eval inits_of_def)
  show ?thesis
    unfolding Let_def
    using 1 2 3 4 5 6 7 8 9 10 11 12 s1 s2 s3 s4
    unfolding h1_def [symmetric] h'_def [symmetric] evs_def [symmetric] fresh_def [symmetric]
    by blast
qed

theorem addComponentToEntity_spec_witness:
  "map ev_name (events_of (addComponentToEntity ex_scenario2b 0 Position)) = [''test'', ''init''] \<and>
   0 \<notin> set (sys_entities (syss (ev_seen (hd (events_of (addComponentToEntity ex_scenario2b 0 Position))))
                                 (ev_sys (hd (events_of (addComponentToEntity ex_scenario2b 0 Position)))))) \<and>
   (1::nat) \<noteq> 0 \<and>
   ents (heap_of (addComponentToEntity ex_scenario2b 0 Position)) 1 = ents ex_scenario2b 1 \<and>
   set (inits_of (events_of (addComponentToEntity ex_scenario2b 0 Position))) = {0} \<and>
   ent_systems (ents (heap_of (addComponentToEntity ex_scenario2b 0 Position)) 0) = [0] \<and>
   sys_entities (syss (heap_of (addComponentToEntity ex_scenario2b 0 Position)) 0) = [0]"
proof -
  let ?r = "addComponentToEntity ex_scenario2b 0 Position"
  have n: "map ev_name (events_of ?r) = [''test'', ''init'']"
    by (simp add: ex_scenario2b_def ex_scenario2a_def ex_eval)
  then have m: "hd (events_of ?r) \<in> set (events_of ?r)" and t: "ev_name (hd (events_of ?r)) = ''test''"
    by (cases "events_of ?r"; simp)+
  have s: "scene_systems ex_scenario2b = [0]" and e: "sys_entities (syss ex_scenario2b 0) = []"
    and y: "ent_systems (ents ex_scenario2b 0) = []"
    and p: "matches (ex_scenario2b\<lparr>ents := (ents ex_scenario2b)(0 := entity_add (ents ex_scenario2b 0) Position)\<rparr>) 0 0"
    by (simp_all add: ex_scenario2b_def ex_scenario2a_def ex_eval)
  note x = addComponentToEntity_spec [where h = ex_scenario2b and e = 0 and c = Position, unfolded Let_def]
  from x m t have 1: "0 \<notin> set (sys_entities (syss (ev_seen (hd (events_of ?r))) (ev_sys (hd (events_of ?r)))))"
    by blast
  from x have 2: "ents (heap_of ?r) 1 = ents ex_scenario2b 1" by simp
  from x have 3: "set (inits_of (events_of ?r)) = {0}"
    by (simp add: s e p)
  from x have "distinct (inits_of (events_of ?r))" by blast
  with 3 have l3: "inits_of (events_of ?r) = [0]"
    by (cases "inits_of (events_of ?r)") (auto split: if_splits simp: subset_singleton_iff)
  from x have "ent_systems (ents (heap_of ?r) 0) = ent_systems (ents ex_scenario2b 0) @ inits_of (events_of ?r)"
    by blast
  then have 4: "ent_systems (ents (heap_of ?r) 0) = [0]" by (simp add: y l3)
  from x have 5: "sys_entities (syss (heap_of ?r) 0) = [0]" by blast
  from n 1 2 3 4 5 show ?thesis by simp
qed

section \<open>What the lifecycle hooks see\<close>

text \<open>
  Claim C10, as amended. Every call that \<open>addEntity\<close> makes is a \<open>test\<close> or an \<open>init\<close>
  on the entity, and sees the entity with its final id and stored in the entities mapping
  under that id. The final id is the explicit id, or the generated one when none is given;
  it is not empty unless the explicit id is the empty string. Every call that \<open>addSystem\<close>
  makes sees the system with its \<open>scene\<close> set and in the scene's array of systems.
\<close>

theorem hooks_see_linked_state:
  "(\<forall>ev \<in> set (events_of (addEntity h e ident)).
      ev_ent ev = e \<and> ev_name ev \<in> {''test'', ''init''} \<and>
      ent_id (ents (ev_seen ev) e) = ent_id (ents (heap_of (addEntity h e ident)) e) \<and>
      getEntity (ev_seen ev) (ent_id (ents (ev_seen ev) e)) = Some e) \<and>
   ent_id (ents (heap_of (addEntity h e ident)) e) =
     (case ident of None \<Rightarrow> show_nat (scene_count h) | Some j \<Rightarrow> j) \<and>
   (ident \<noteq> Some [] \<longrightarrow> ent_id (ents (heap_of (addEntity h e ident)) e) \<noteq> []) \<and>
   (\<forall>ev \<in> set (events_of (addSystem h s)).
      ev_sys ev = s \<and> ev_name ev \<in> {''test'', ''init''} \<and>
      sys_scene (syss (ev_seen ev) s) = Some This_scene \<and>
      s \<in> set (scene_systems (ev_seen ev)))"
proof (intro conjI ballI impI)
  define i where "i = (case ident of None \<Rightarrow> show_nat (scene_count h) | Some j \<Rightarrow> j)"
  define h0 where "h0 = h\<lparr>scene_count := (case ident of None \<Rightarrow> scene_count h + 1 | Some i \<Rightarrow> scene_count h),
          ents := (ents h)(e := (ents h e)\<lparr>ent_id := i\<rparr>),
          scene_entities := AList.update i e (scene_entities h)\<rparr>"
  have hp: "heap_of (addEntity h e ident) = fst (addEntity_loop e (scene_systems h) h0)"
    by (simp add: heap_of_addEntity h0_def i_def)
  have ev: "events_of (addEntity h e ident) = snd (addEntity_loop e (scene_systems h) h0)"
    by (simp add: events_of_addEntity h0_def i_def)
  have "same_frame h0 (heap_of (addEntity h e ident))"
    unfolding hp by (rule addEntity_loop_frame)
  then show final: "ent_id (ents (heap_of (addEntity h e ident)) e) =
     (case ident of None \<Rightarrow> show_nat (scene_count h) | Some j \<Rightarrow> j)"
    by (simp add: same_frame_def h0_def i_def)
  {
    assume "ident \<noteq> Some []"
    then have "i \<noteq> []"
      by (cases ident) (simp_all add: i_def show_nat_nonempty)
    then show "ent_id (ents (heap_of (addEntity h e ident)) e) \<noteq> []"
      by (simp add: final i_def)
  }
  {
    fix ev assume "ev \<in> set (events_of (addEntity h e ident))"
    then have a: "same_frame h0 (ev_seen ev) \<and> ev_ent ev = e \<and> ev_name ev \<in> {''test'', ''init''}"
      unfolding ev by (rule seen_addEntity_loop)
    then have b: "ent_id (ents (ev_seen ev) e) = i"
      and c: "scene_entities (ev_seen ev) = AList.update i e (scene_entities h)"
      by (simp_all add: same_frame_def h0_def)
    from a show "ev_ent ev = e" and "ev_name ev \<in> {''test'', ''init''}" by simp_all
    show "ent_id (ents (ev_seen ev) e) = ent_id (ents (heap_of (addEntity h e ident)) e)"
      by (simp add: b final i_def)
    show "getEntity (ev_seen ev) (ent_id (ents (ev_seen ev) e)) = Some e"
      by (simp add: getEntity_def b c update_conv')
  }
next
  fix ev assume "ev \<in> set (events_of (addSystem h s))"
  then have a: "same_frame (h\<lparr>scene_systems := scene_systems h @ [s],
          syss := (syss h)(s := (syss h s)\<lparr>sys_scene := Some This_scene\<rparr>)\<rparr>) (ev_seen ev)
       \<and> ev_sys ev = s \<and> ev_name ev \<in> {''test'', ''init''}"
    unfolding events_of_addSystem by (rule seen_addSystem_loop)
  from a show "ev_sys ev = s" and "ev_name ev \<in> {''test'', ''init''}" by simp_all
  from a show "sys_scene (syss (ev_seen ev) s) = Some This_scene"
    by (simp add: same_frame_def)
  from a show "s \<in> set (scene_systems (ev_seen ev))"
    by (simp add: same_frame_def)
qed

theorem hooks_see_linked_state_witness:
  "Some ''hero'' \<noteq> Some [] \<and>
   map ev_name (events_of (addEntity ex_scene1 0 (Some ''hero''))) = [''test'', ''test'', ''init''] \<and>
   ent_id (ents (heap_of (addEntity ex_scene1 0 (Some ''hero''))) 0) = ''hero'' \<and>
   ent_id (ents (ev_seen (hd (events_of (addEntity ex_scene1 0 (Some ''hero''))))) 0) = ''hero'' \<and>
   getEntity (ev_seen (hd (events_of (addEntity ex_scene1 0 (Some ''hero''))))) ''hero'' = Some 0 \<and>
   map ev_name (events_of (addSystem ex_scenario2a 1)) = [''test'', ''init''] \<and>
   sys_scene (syss (ev_seen (hd (events_of (addSystem ex_scenario2a 1)))) 1) = Some This_scene"
proof -
  have n: "map ev_name (events_of (addEntity ex_scene1 0 (Some ''hero''))) = [''test'', ''test'', ''init'']"
    by (simp add: ex_scene1_def ex_eval)
  then have m: "hd (events_of (addEntity ex_scene1 0 (Some ''hero'')))
      \<in> set (events_of (addEntity ex_scene1 0 (Some ''hero'')))"
    by (cases "events_of (addEntity ex_scene1 0 (Some ''hero''))") simp_all
  have n': "map ev_name (events_of (addSystem ex_scenario2a 1)) = [''test'', ''init'']"
    by (simp add: ex_scenario2a_def ex_eval)
  then have m': "hd (events_of (addSystem ex_scenario2a 1)) \<in> set (events_of (addSystem ex_scenario2a 1))"
    by (cases "events_of (addSystem ex_scenario2a 1)") simp_all
  note t = hooks_see_linked_state [where h = ex_scene1 and e = 0 and ident = "Some ''hero''"]
  note u = hooks_see_linked_state [where h = ex_scenario2a and s = 1]
  from t have 1: "ent_id (ents (heap_of (addEntity ex_scene1 0 (Some ''hero''))) 0) = ''hero''"
    by simp
  from t m have 2: "ent_id (ents (ev_seen (hd (events_of (addEntity ex_scene1 0 (Some ''hero''))))) 0)
      = ent_id (ents (heap_of (addEntity ex_scene1 0 (Some ''hero''))) 0)"
    and 3: "getEntity (ev_seen (hd (events_of (addEntity ex_scene1 0 (Some ''hero'')))))
        (ent_id (ents (ev_seen (hd (events_of (addEntity ex_scene1 0 (Some ''hero''))))) 0)) = Some 0"
    by blast+
  from u m' have 4: "sys_scene (syss (ev_seen (hd (events_of (addSystem ex_scenario2a 1)))) 1) = Some This_scene"
    by blast
  from n n' 1 2 3 4 show ?thesis by simp
qed

text \<open>
  The claim as first stated, that every call sees a non-empty id, fails for the explicit
  id \<open>""\<close>, which \<open>addEntity\<close> takes as given (only \<open>undefined\<close> makes it generate one):
  the calls of \<open>test\<close> and \<open>init\<close> see the entity with the empty id.
\<close>

theorem hooks_see_nonempty_id_counterexample:
  "map ev_name (events_of (addEntity ex_scene1 0 (Some ''''))) = [''test'', ''test'', ''init''] \<and>
   ent_id (ents (ev_seen (events_of (addEntity ex_scene1 0 (Some '''')) ! 0)) 0) = '''' \<and>
   ent_id (ents (ev_seen (events_of (addEntity ex_scene1 0 (Some '''')) ! 2)) 0) = '''' \<and>
   ent_id (ents (heap_of (addEntity ex_scene1 0 (Some ''''))) 0) = ''''"
  by (simp add: ex_scene1_def ex_eval)

section \<open>Predicate consistency\<close>

text \<open>
  Claim C3, as amended. The methods of the systems are taken not to write to the store:
  \<open>test\<close> and \<open>init\<close> change no entity, component, system or field of the scene (this is
  how the operations are modelled). Call a store consistent when, for every entity and every
  system, the entity is in the system's array if and only if the system's \<open>test\<close> holds of
  it, the entity is in the scene and the system is in the scene. A new scene is consistent.
  For a consistent store: \<open>addSystem\<close> leaves a consistent store; \<open>addEntity\<close> leaves a
  consistent store when the entity is not yet in the scene and the id it gets (explicit or
  generated) is not already a key of the entities mapping; and after
  \<open>addComponentToEntity\<close> on an entity of the scene, an entity is in a system's array if
  and only if both are in the scene and either \<open>test\<close> holds of it now, or it is the
  entity that got the component and \<open>test\<close> held of it before the call (an existing
  membership is kept, whatever \<open>test\<close> says now). The keys of the entities mapping, listed
  once each as in any dictionary, stay so.
\<close>

theorem predicate_consistency:
  "consistent (new_Scene (\<lambda>x. new_Entity (cs x)) (\<lambda>s. new_System (t s) (f s))) \<and>
   (consistent h \<and> distinct (map fst (scene_entities h)) \<longrightarrow>
      consistent (heap_of (addSystem h s)) \<and>
      (\<not> entity_in_scene h e \<and>
       (case ident of None \<Rightarrow> show_nat (scene_count h) | Some j \<Rightarrow> j) \<notin> fst ` set (scene_entities h)
         \<longrightarrow> consistent (heap_of (addEntity h e ident))) \<and>
      (entity_in_scene h e \<longrightarrow>
         (\<forall>x s. x \<in> set (sys_entities (syss (heap_of (addComponentToEntity h e c)) s)) \<longleftrightarrow>
            (matches (heap_of (addComponentToEntity h e c)) s x \<or> x = e \<and> matches h s e) \<and>
            entity_in_scene (heap_of (addComponentToEntity h e c)) x \<and>
            system_in_scene (heap_of (addComponentToEntity h e c)) s)) \<and>
      distinct (map fst (scene_entities (heap_of (addSystem h s)))) \<and>
      distinct (map fst (scene_entities (heap_of (addEntity h e ident)))) \<and>
      distinct (map fst (scene_entities (heap_of (addComponentToEntity h e c)))))"
proof (intro conjI impI allI)
  show "consistent (new_Scene (\<lambda>x. new_Entity (cs x)) (\<lambda>s. new_System (t s) (f s)))"
    by (rule consistent_new_Scene)
next
  assume a: "consistent h \<and> distinct (map fst (scene_entities h))"
  then show "consistent (heap_of (addSystem h s))"
    by (simp add: consistent_addSystem)
  from a show "distinct (map fst (scene_entities (heap_of (addSystem h s))))"
    by (simp add: addSystem_facts)
  from a show "distinct (map fst (scene_entities (heap_of (addEntity h e ident))))"
    by (simp add: distinct_keys_addEntity)
  from a show "distinct (map fst (scene_entities (heap_of (addComponentToEntity h e c))))"
    by (simp add: addComponentToEntity_facts)
  {
    assume "\<not> entity_in_scene h e \<and>
       (case ident of None \<Rightarrow> show_nat (scene_count h) | Some j \<Rightarrow> j) \<notin> fst ` set (scene_entities h)"
    with a show "consistent (heap_of (addEntity h e ident))"
      by (simp add: consistent_addEntity)
  }
  {
    fix x s
    assume "entity_in_scene h e"
    with a show "x \<in> set (sys_entities (syss (heap_of (addComponentToEntity h e c)) s)) \<longleftrightarrow>
            (matches (heap_of (addComponentToEntity h e c)) s x \<or> x = e \<and> matches h s e) \<and>
            entity_in_scene (heap_of (addComponentToEntity h e c)) x \<and>
            system_in_scene (heap_of (addComponentToEntity h e c)) s"
      by (simp add: membership_addComponentToEntity)
  }
qed

theorem predicate_consistency_witness:
  "consistent ex_scene1 \<and> distinct (map fst (scene_entities ex_scene1)) \<and>
   \<not> entity_in_scene ex_scene1 0 \<and> show_nat (scene_count ex_scene1) \<notin> fst ` set (scene_entities ex_scene1) \<and>
   consistent ex_scene2 \<and> entity_in_scene ex_scene2 0 \<and>
   consistent (heap_of (addSystem ex_scene2 2)) \<and>
   (0 \<in> set (sys_entities (syss ex_scene3 0)) \<longleftrightarrow>
      (matches ex_scene3 0 0 \<or> (0::nat) = 0 \<and> matches ex_scene2 0 0) \<and>
      entity_in_scene ex_scene3 0 \<and> system_in_scene ex_scene3 0)"
proof -
  have q: "(\<lambda>s. new_System (sys_test (ex_systems s)) (sys_callable (ex_systems s))) = ex_systems"
    by (intro ext) (simp add: ex_systems_def new_System_def)
  have k0: "distinct (map fst (scene_entities ex_scene))"
    by (simp add: ex_scene_def new_Scene_def)
  have c0: "consistent ex_scene"
    using predicate_consistency [where cs = "\<lambda>x. []" and t = "\<lambda>s. sys_test (ex_systems s)"
        and f = "\<lambda>s. sys_callable (ex_systems s)", THEN conjunct1]
    unfolding q ex_scene_def .
  have ca: "consistent (heap_of (addSystem ex_scene 0))"
    by (rule predicate_consistency [where h = ex_scene and s = 0, THEN conjunct2, THEN mp, OF conjI, OF c0 k0, THEN conjunct1])
  have ka: "distinct (map fst (scene_entities (heap_of (addSystem ex_scene 0))))"
    by (simp add: ex_eval)
  have c1: "consistent ex_scene1"
    unfolding ex_scene1_def
    by (rule predicate_consistency [where h = "heap_of (addSystem ex_scene 0)" and s = 1, THEN conjunct2, THEN mp, OF conjI, OF ca ka, THEN conjunct1])
  have k1: "scene_entities ex_scene1 = []" by (simp add: ex_scene1_def ex_eval)
  then have d1: "distinct (map fst (scene_entities ex_scene1))"
    and n1: "\<not> entity_in_scene ex_scene1 0"
    and f1: "show_nat (scene_count ex_scene1) \<notin> fst ` set (scene_entities ex_scene1)"
    by (simp_all add: entity_in_scene_def)
  have f1': "(case None of None \<Rightarrow> show_nat (scene_count ex_scene1) | Some j \<Rightarrow> j)
      \<notin> fst ` set (scene_entities ex_scene1)"
    using f1 by simp
  have c2: "consistent ex_scene2"
    unfolding ex_scene2_def
    by (rule predicate_consistency [where h = ex_scene1 and e = 0 and ident = None, THEN conjunct2, THEN mp, OF conjI, OF c1 d1,
          THEN conjunct2, THEN conjunct1, THEN mp, OF conjI, OF n1 f1'])
  have k2: "scene_entities ex_scene2 = [(''0'', 0)]"
    by (simp add: ex_scene2_def ex_scene1_def ex_eval)
  then have d2: "distinct (map fst (scene_entities ex_scene2))"
    and i2: "entity_in_scene ex_scene2 0"
    by (simp_all add: entity_in_scene_def getEntity_def)
  have c3: "consistent (heap_of (addSystem ex_scene2 2))"
    by (rule predicate_consistency [where h = ex_scene2 and s = 2, THEN conjunct2, THEN mp, OF conjI, OF c2 d2, THEN conjunct1])
  have m: "0 \<in> set (sys_entities (syss ex_scene3 0)) \<longleftrightarrow>
      (matches ex_scene3 0 0 \<or> (0::nat) = 0 \<and> matches ex_scene2 0 0) \<and>
      entity_in_scene ex_scene3 0 \<and> system_in_scene ex_scene3 0"
    unfolding ex_scene3_def
    by (rule predicate_consistency [where h = ex_scene2 and e = 0 and c = Position, THEN conjunct2, THEN mp, OF conjI, OF c2 d2,
          THEN conjunct2, THEN conjunct2, THEN conjunct1, THEN mp, OF i2, THEN spec, THEN spec])
  from c1 d1 n1 f1 c2 i2 c3 m show ?thesis by blast
qed

text \<open>
  The claim as first stated fails in each of the cases that the amended claim leaves out.
  \<^item> An explicit id already in use: after entity 1 is stored under the id of entity 0,
    entity 0 is no longer in the scene (\<open>getEntity\<close> gives entity 1) but is still in the
    array of system 1, in a store that was consistent before the call.
  \<^item> A store that is not consistent before the call: \<open>addSystem\<close> on the store just
    described leaves entity 0 where it was.
  \<^item> An entity that is already in the scene, added again under an unused id: system 0 of
    the second family holds entity 0 because its id was \<open>a\<close>; after the second
    \<open>addEntity\<close> the id is \<open>b\<close>, \<open>test\<close> fails, and the system still holds the entity.
  \<^item> \<open>addComponentToEntity\<close> on an entity of the scene: system 1 of the second family
    holds entity 0, which had no \<open>Position\<close>; once \<open>Position\<close> is added \<open>test\<close> fails and
    the system still holds the entity.
  \<^item> \<open>addComponentToEntity\<close> on an entity outside the scene: entity 5 enters the array of
    system 1 and is not in the scene.
  \<^item> An \<open>init\<close> that writes to the store: entity 0, new to the scene and under an unused
    id, is tested by system 0 (no \<open>Position\<close>, no match), then matched by system 1, whose
    \<open>init\<close> adds a \<open>Position\<close>; the \<open>test\<close> of system 0 now holds of the entity, which
    is in the scene and not in the array of system 0.
\<close>

theorem predicate_consistency_counterexample:
  "consistent ex_collisionA \<and> getEntity ex_collisionA ''a'' = Some 0 \<and>
   getEntity ex_collisionB ''a'' = Some 1 \<and>
   0 \<in> set (sys_entities (syss ex_collisionB 1)) \<and> matches ex_collisionB 1 0 \<and>
   system_in_scene ex_collisionB 1 \<and> \<not> entity_in_scene ex_collisionB 0 \<and>
   \<not> consistent ex_collisionB \<and>
   \<not> consistent (heap_of (addSystem ex_collisionB 2)) \<and>
   consistent ex_readdA \<and> entity_in_scene ex_readdA 0 \<and>
   ''b'' \<notin> fst ` set (scene_entities ex_readdA) \<and>
   0 \<in> set (sys_entities (syss ex_readdB 0)) \<and> \<not> matches ex_readdB 0 0 \<and>
   \<not> consistent ex_readdB \<and>
   consistent ex_staleA \<and> entity_in_scene ex_staleA 0 \<and>
   0 \<in> set (sys_entities (syss ex_staleB 1)) \<and> \<not> matches ex_staleB 1 0 \<and>
   \<not> consistent ex_staleB \<and>
   consistent ex_scene1 \<and> \<not> entity_in_scene ex_scene1 5 \<and>
   5 \<in> set (sys_entities (syss ex_detached 1)) \<and> \<not> entity_in_scene ex_detached 5 \<and>
   \<not> consistent ex_detached \<and>
   \<not> entity_in_scene ex_scene1 0 \<and> show_nat (scene_count ex_scene1) \<notin> fst ` set (scene_entities ex_scene1) \<and>
   matches ex_init_writes 0 0 \<and> entity_in_scene ex_init_writes 0 \<and>
   system_in_scene ex_init_writes 0 \<and> 0 \<notin> set (sys_entities (syss ex_init_writes 0)) \<and>
   \<not> consistent ex_init_writes"
proof -
  have k1: "scene_entities ex_scene1 = []" by (simp add: ex_scene1_def ex_eval)
  have a: "consistent ex_collisionA"
    unfolding ex_collisionA_def
    by (rule consistent_addEntity [OF consistent_ex_scene1]) (simp_all add: entity_in_scene_def k1)
  have g: "getEntity ex_collisionA ''a'' = Some 0"
    by (simp add: ex_collisionA_def ex_scene1_def ex_eval)
  have b: "getEntity ex_collisionB ''a'' = Some 1 \<and>
     0 \<in> set (sys_entities (syss ex_collisionB 1)) \<and> matches ex_collisionB 1 0 \<and>
     system_in_scene ex_collisionB 1 \<and> \<not> entity_in_scene ex_collisionB 0"
    by (simp add: ex_collisionB_def ex_collisionA_def ex_scene1_def ex_eval
        entity_in_scene_def system_in_scene_def)
  then have nb: "\<not> consistent ex_collisionB"
    unfolding consistent_def by blast
  have "0 \<in> set (sys_entities (syss (heap_of (addSystem ex_collisionB 2)) 1)) \<and>
        \<not> entity_in_scene (heap_of (addSystem ex_collisionB 2)) 0"
    by (simp add: ex_collisionB_def ex_collisionA_def ex_scene1_def ex_eval
        entity_in_scene_def system_in_scene_def)
  then have nc: "\<not> consistent (heap_of (addSystem ex_collisionB 2))"
    unfolding consistent_def by blast
  have db: "distinct (map fst (scene_entities ex_scene_b))"
    by (simp add: ex_scene_b_def new_Scene_def)
  have ra: "consistent ex_readdA"
    unfolding ex_readdA_def
    by (rule consistent_addEntity [OF consistent_addSystem [OF consistent_ex_scene_b db]])
       (simp_all add: entity_in_scene_def addSystem_facts ex_scene_b_def new_Scene_def)
  have rb: "entity_in_scene ex_readdA 0 \<and> ''b'' \<notin> fst ` set (scene_entities ex_readdA) \<and>
     0 \<in> set (sys_entities (syss ex_readdB 0)) \<and> \<not> matches ex_readdB 0 0"
    by (simp add: ex_readdB_def ex_readdA_def ex_eval_b)
  then have nr: "\<not> consistent ex_readdB"
    unfolding consistent_def by blast
  have sa: "consistent ex_staleA"
    unfolding ex_staleA_def
    by (rule consistent_addEntity [OF consistent_addSystem [OF consistent_ex_scene_b db]])
       (simp_all add: entity_in_scene_def addSystem_facts ex_scene_b_def new_Scene_def)
  have sb: "entity_in_scene ex_staleA 0 \<and>
     0 \<in> set (sys_entities (syss ex_staleB 1)) \<and> \<not> matches ex_staleB 1 0"
    by (simp add: ex_staleB_def ex_staleA_def ex_eval_b)
  then have ns: "\<not> consistent ex_staleB"
    unfolding consistent_def by blast
  have d: "\<not> entity_in_scene ex_scene1 5 \<and>
     5 \<in> set (sys_entities (syss ex_detached 1)) \<and> \<not> entity_in_scene ex_detached 5"
    by (simp add: ex_detached_def ex_scene1_def ex_eval_b)
  then have nd: "\<not> consistent ex_detached"
    unfolding consistent_def by blast
  have w0: "\<not> entity_in_scene ex_scene1 0 \<and>
     show_nat (scene_count ex_scene1) \<notin> fst ` set (scene_entities ex_scene1)"
    by (simp add: k1 entity_in_scene_def)
  have w: "matches ex_init_writes 0 0 \<and> entity_in_scene ex_init_writes 0 \<and>
     system_in_scene ex_init_writes 0 \<and> 0 \<notin> set (sys_entities (syss ex_init_writes 0))"
    by (simp add: ex_init_writes_def ex_scene1_def ex_eval_b)
  then have nw: "\<not> consistent ex_init_writes"
    unfolding consistent_def by blast
  from a g b nb nc ra rb nr sa sb ns consistent_ex_scene1 d nd w0 w nw show ?thesis
    by simp
qed

end
